theory Spec2Isabelle
  imports Complex_Main "HOL-Library.AList" "HOL-Library.Multiset" "HOL-Library.Sublist"
begin

section \<open>JSON values as the handlers of app.py see them\<close>

text \<open>
  Every handler of \<^verbatim>\<open>app.py\<close> reads its arguments from a decoded JSON body
  (\<^verbatim>\<open>request.get_json(silent=True)\<close>), from the query string or from the URL. A decoded
  JSON value is \<^verbatim>\<open>None\<close>, a \<^verbatim>\<open>bool\<close>, an unbounded \<^verbatim>\<open>int\<close>, a \<^verbatim>\<open>float\<close>, a
  \<^verbatim>\<open>str\<close>, a \<^verbatim>\<open>list\<close> or a \<^verbatim>\<open>dict\<close> with string keys. A body that cannot be decoded
  gives \<^verbatim>\<open>None\<close>, which is \<open>JNull\<close> here.

  A float is a finite value, an infinity or a NaN. The handlers only test a float for
  truth, truncate it with \<^verbatim>\<open>int()\<close> and compare it with an integer key, so a finite float
  is modelled by the rational number it denotes (every IEEE double is one); no
  floating-point arithmetic is performed anywhere in the program.

  A \<^verbatim>\<open>dict\<close> is an association list read through \<open>map_of\<close> only, so the order and
  repetition of its pairs are not observable.
\<close>

datatype pyfloat = Finite rat | PosInf | NegInf | NaN

datatype json =
    JNull
  | JBool bool
  | JInt int
  | JFloat pyfloat
  | JStr string
  | JList "json list"
  | JObj "(string \<times> json) list"

text \<open>The exceptions the built-ins used by the handlers can raise.\<close>

datatype py_exception = TypeError | ValueError | OverflowError | AttributeError | KeyError

text \<open>
  \<^verbatim>\<open>int(s)\<close> for a string \<^verbatim>\<open>s\<close> is the interpreter's parser of integer literals. It is
  not part of the repository, so it is a parameter: \<open>int_of_str s = None\<close> stands for
  \<^verbatim>\<open>ValueError\<close>. The iteration order of the set literal
  \<^verbatim>\<open>allowed_fields = {"title", "is_done", "priority"}\<close> of \<^verbatim>\<open>patch_todo\<close> is fixed by
  the string hashes of the running interpreter; it is the second parameter.
\<close>

datatype field = Title | IsDone | Priority

record runtime =
  int_of_str :: "string \<Rightarrow> int option"
  allowed_fields :: "field list"

definition field_name :: "field \<Rightarrow> string" where
  "field_name f = (case f of Title \<Rightarrow> ''title'' | IsDone \<Rightarrow> ''is_done'' | Priority \<Rightarrow> ''priority'')"

definition set_iteration_order :: "field list \<Rightarrow> bool" where
  "set_iteration_order fs \<longleftrightarrow> distinct fs \<and> set fs = {Title, IsDone, Priority}"

text \<open>\<^verbatim>\<open>bool(x)\<close>, and the test of \<^verbatim>\<open>if not x\<close>.\<close>

fun truthy :: "json \<Rightarrow> bool" where
  "truthy JNull = False"
| "truthy (JBool b) = b"
| "truthy (JInt n) = (n \<noteq> 0)"
| "truthy (JFloat x) = (x \<noteq> Finite 0)"
| "truthy (JStr s) = (s \<noteq> [])"
| "truthy (JList xs) = (xs \<noteq> [])"
| "truthy (JObj kvs) = (kvs \<noteq> [])"

definition trunc :: "rat \<Rightarrow> int" where
  "trunc r = (if r < 0 then - \<lfloor>- r\<rfloor> else \<lfloor>r\<rfloor>)"

text \<open>\<^verbatim>\<open>int(x)\<close>.\<close>

fun py_int :: "runtime \<Rightarrow> json \<Rightarrow> py_exception + int" where
  "py_int rt JNull = Inl TypeError"
| "py_int rt (JBool b) = Inr (if b then 1 else 0)"
| "py_int rt (JInt n) = Inr n"
| "py_int rt (JFloat (Finite r)) = Inr (trunc r)"
| "py_int rt (JFloat NaN) = Inl ValueError"
| "py_int rt (JFloat PosInf) = Inl OverflowError"
| "py_int rt (JFloat NegInf) = Inl OverflowError"
| "py_int rt (JStr s) = (case int_of_str rt s of None \<Rightarrow> Inl ValueError | Some n \<Rightarrow> Inr n)"
| "py_int rt (JList xs) = Inl TypeError"
| "py_int rt (JObj kvs) = Inl TypeError"

text \<open>
  \<^verbatim>\<open>data.get(key, default)\<close>: only a \<^verbatim>\<open>dict\<close> has the method.
\<close>

fun py_get :: "json \<Rightarrow> string \<Rightarrow> json \<Rightarrow> py_exception + json" where
  "py_get (JObj kvs) k d = Inr (case map_of kvs k of None \<Rightarrow> d | Some v \<Rightarrow> v)"
| "py_get _ k d = Inl AttributeError"

text \<open>
  \<^verbatim>\<open>key in data\<close> for a string \<^verbatim>\<open>key\<close>: a key of a \<^verbatim>\<open>dict\<close>, an element of a
  \<^verbatim>\<open>list\<close> (a string equals strings only), a substring of a \<^verbatim>\<open>str\<close>; the other values
  are not iterable.
\<close>

fun py_in :: "string \<Rightarrow> json \<Rightarrow> py_exception + bool" where
  "py_in k (JObj kvs) = Inr (map_of kvs k \<noteq> None)"
| "py_in k (JList xs) = Inr (JStr k \<in> set xs)"
| "py_in k (JStr s) = Inr (sublist k s)"
| "py_in k _ = Inl TypeError"

text \<open>\<^verbatim>\<open>data[key]\<close> for a string \<^verbatim>\<open>key\<close>.\<close>

fun py_getitem :: "json \<Rightarrow> string \<Rightarrow> py_exception + json" where
  "py_getitem (JObj kvs) k = (case map_of kvs k of None \<Rightarrow> Inl KeyError | Some v \<Rightarrow> Inr v)"
| "py_getitem _ k = Inl TypeError"

text \<open>
  \<^verbatim>\<open>all(field in data for field in fields)\<close> and \<^verbatim>\<open>any(...)\<close>: they stop at the first
  decisive element, and an exception of \<^verbatim>\<open>in\<close> leaves them.
\<close>

fun py_all_in :: "string list \<Rightarrow> json \<Rightarrow> py_exception + bool" where
  "py_all_in [] data = Inr True"
| "py_all_in (f # fs) data =
     (case py_in f data of
        Inl e \<Rightarrow> Inl e
      | Inr b \<Rightarrow> if b then py_all_in fs data else Inr False)"

fun py_any_in :: "string list \<Rightarrow> json \<Rightarrow> py_exception + bool" where
  "py_any_in [] data = Inr False"
| "py_any_in (f # fs) data =
     (case py_in f data of
        Inl e \<Rightarrow> Inl e
      | Inr b \<Rightarrow> if b then Inr True else py_any_in fs data)"

text \<open>\<^verbatim>\<open>request.get_json(silent=True) or {}\<close>.\<close>

definition get_json_or_empty :: "json \<Rightarrow> json" where
  "get_json_or_empty body = (if truthy body then body else JObj [])"

text \<open>
  Integer keys and JSON values. \<open>json_key v\<close> is the integer that \<^verbatim>\<open>v\<close> equals in Python
  (\<^verbatim>\<open>True == 1\<close>, \<^verbatim>\<open>2.0 == 2\<close>), if there is one. Lists and dicts are not hashable:
  looking them up in a dict raises \<^verbatim>\<open>TypeError\<close>.
\<close>

fun json_key :: "json \<Rightarrow> int option" where
  "json_key (JInt n) = Some n"
| "json_key (JBool b) = Some (if b then 1 else 0)"
| "json_key (JFloat (Finite r)) = (if of_int \<lfloor>r\<rfloor> = r then Some \<lfloor>r\<rfloor> else None)"
| "json_key _ = None"

fun hashable :: "json \<Rightarrow> bool" where
  "hashable (JList xs) = False"
| "hashable (JObj kvs) = False"
| "hashable _ = True"

section \<open>The store: TODOS and NEXT_ID\<close>

text \<open>
  A todo is the dict built by \<^verbatim>\<open>make_todo\<close> and \<^verbatim>\<open>replace_todo\<close>: five fixed keys,
  \<^verbatim>\<open>is_done\<close> always the result of \<^verbatim>\<open>bool()\<close> and \<^verbatim>\<open>priority\<close> of \<^verbatim>\<open>int()\<close>. The
  title is whatever truthy JSON value the request carried. The field \<^verbatim>\<open>id\<close> is \<open>id'\<close>.

  \<^verbatim>\<open>TODOS\<close> is a Python dict, which iterates in insertion order: an association list,
  where \<^verbatim>\<open>TODOS[k] = v\<close> is \<open>AList.update\<close> (in place for a key that exists, at the end
  for a new one) and \<^verbatim>\<open>TODOS.pop(k, None)\<close> is \<open>AList.delete\<close>.
\<close>

record todo =
  id' :: int
  title :: json
  is_done :: bool
  priority :: int
  position :: int

record store =
  TODOS :: "(int \<times> todo) list"
  NEXT_ID :: int

definition init_store :: store where
  "init_store = \<lparr>TODOS = [], NEXT_ID = 1\<rparr>"

text \<open>
  Responses. The two error kinds of the handlers are the 404 and the 400 answers; an
  exception that no handler catches ends the request with a 500 answer.
\<close>

datatype validation =
    TitleRequired
  | ItemsNotList
  | FieldsRequired
  | IsDoneRequired
  | AllowedFieldRequired
  | OrderNotList
  | UnknownIds "json list"

datatype error = NotFoundError | ValidationError validation | Uncaught py_exception

datatype reply =
    Health
  | TodoList "todo list"
  | Todo todo
  | Created "todo list" nat
  | DeletedId int
  | DeletedIds "int list" bool

type_synonym response = "error + reply"

section \<open>The handlers\<close>

text \<open>
  \<^verbatim>\<open>make_todo\<close> takes the next id and increments the counter before it builds the dict,
  so the counter stays incremented when \<^verbatim>\<open>int(priority)\<close> raises.
\<close>

definition make_todo :: "runtime \<Rightarrow> store \<Rightarrow> json \<Rightarrow> json \<Rightarrow> json \<Rightarrow> store \<times> (py_exception + todo)" where
  "make_todo rt s title_arg is_done_arg priority_arg =
     (let todo_id = NEXT_ID s;
          s' = s\<lparr>NEXT_ID := NEXT_ID s + 1\<rparr>
      in case py_int rt priority_arg of
           Inl e \<Rightarrow> (s', Inl e)
         | Inr p \<Rightarrow>
             (s', Inr \<lparr>id' = todo_id, title = title_arg, is_done = truthy is_done_arg,
                       priority = p, position = todo_id\<rparr>))"

text \<open>A stored todo is a dict of five keys, hence truthy: only a missing key gives 404.\<close>

definition get_todo_or_404 :: "store \<Rightarrow> int \<Rightarrow> error + todo" where
  "get_todo_or_404 s todo_id =
     (case map_of (TODOS s) todo_id of None \<Rightarrow> Inl NotFoundError | Some t \<Rightarrow> Inr t)"

definition health_check :: "store \<Rightarrow> store \<times> response" where
  "health_check s = (s, Inr Health)"

definition list_todos :: "store \<Rightarrow> string option \<Rightarrow> store \<times> response" where
  "list_todos s arg =
     (let status = (case arg of None \<Rightarrow> ''all'' | Some v \<Rightarrow> v);
          todos = map snd (TODOS s);
          todos = (if status = ''open'' then filter (\<lambda>t. \<not> is_done t) todos
                   else if status = ''done'' then filter (\<lambda>t. is_done t) todos
                   else todos)
      in (s, Inr (TodoList (sort_key position todos))))"

definition create_todo :: "runtime \<Rightarrow> store \<Rightarrow> json \<Rightarrow> store \<times> response" where
  "create_todo rt s body =
     (let data = get_json_or_empty body in
      case py_get data ''title'' JNull of
        Inl e \<Rightarrow> (s, Inl (Uncaught e))
      | Inr ttl \<Rightarrow>
          if \<not> truthy ttl then (s, Inl (ValidationError TitleRequired))
          else
            (case py_get data ''is_done'' (JBool False) of
               Inl e \<Rightarrow> (s, Inl (Uncaught e))
             | Inr d \<Rightarrow>
                 (case py_get data ''priority'' (JInt 1) of
                    Inl e \<Rightarrow> (s, Inl (Uncaught e))
                  | Inr p \<Rightarrow>
                      (case make_todo rt s ttl d p of
                         (s', Inl e) \<Rightarrow> (s', Inl (Uncaught e))
                       | (s', Inr t) \<Rightarrow>
                           (s'\<lparr>TODOS := AList.update (id' t) t (TODOS s')\<rparr>, Inr (Todo t))))))"

text \<open>
  The loop of \<^verbatim>\<open>create_todos_bulk\<close>. An exception leaves the loop with the todos stored
  so far still in the store.
\<close>

fun bulk_loop :: "runtime \<Rightarrow> json list \<Rightarrow> store \<Rightarrow> todo list \<Rightarrow> store \<times> (py_exception + todo list)" where
  "bulk_loop rt [] s created = (s, Inr created)"
| "bulk_loop rt (item # items) s created =
     (case py_get item ''title'' JNull of
        Inl e \<Rightarrow> (s, Inl e)
      | Inr ttl \<Rightarrow>
          if \<not> truthy ttl then bulk_loop rt items s created
          else
            (case py_get item ''is_done'' (JBool False) of
               Inl e \<Rightarrow> (s, Inl e)
             | Inr d \<Rightarrow>
                 (case py_get item ''priority'' (JInt 1) of
                    Inl e \<Rightarrow> (s, Inl e)
                  | Inr p \<Rightarrow>
                      (case make_todo rt s ttl d p of
                         (s', Inl e) \<Rightarrow> (s', Inl e)
                       | (s', Inr t) \<Rightarrow>
                           bulk_loop rt items
                             (s'\<lparr>TODOS := AList.update (id' t) t (TODOS s')\<rparr>)
                             (created @ [t])))))"

definition create_todos_bulk :: "runtime \<Rightarrow> store \<Rightarrow> json \<Rightarrow> store \<times> response" where
  "create_todos_bulk rt s body =
     (let data = get_json_or_empty body in
      case py_get data ''items'' JNull of
        Inl e \<Rightarrow> (s, Inl (Uncaught e))
      | Inr (JList items) \<Rightarrow>
          (case bulk_loop rt items s [] of
             (s', Inl e) \<Rightarrow> (s', Inl (Uncaught e))
           | (s', Inr created) \<Rightarrow> (s', Inr (Created created (length created))))
      | Inr _ \<Rightarrow> (s, Inl (ValidationError ItemsNotList)))"

definition required_fields :: "string list" where
  "required_fields = [''title'', ''is_done'', ''priority'']"

definition replace_todo :: "runtime \<Rightarrow> store \<Rightarrow> int \<Rightarrow> json \<Rightarrow> store \<times> response" where
  "replace_todo rt s todo_id body =
     (case get_todo_or_404 s todo_id of
        Inl e \<Rightarrow> (s, Inl e)
      | Inr existing \<Rightarrow>
          (let data = get_json_or_empty body in
           case py_all_in required_fields data of
             Inl e \<Rightarrow> (s, Inl (Uncaught e))
           | Inr present \<Rightarrow>
               if \<not> present then (s, Inl (ValidationError FieldsRequired))
               else
                 (case py_getitem data ''title'' of
                    Inl e \<Rightarrow> (s, Inl (Uncaught e))
                  | Inr ttl \<Rightarrow>
                      (case py_getitem data ''is_done'' of
                         Inl e \<Rightarrow> (s, Inl (Uncaught e))
                       | Inr d \<Rightarrow>
                           (case py_getitem data ''priority'' of
                              Inl e \<Rightarrow> (s, Inl (Uncaught e))
                            | Inr pv \<Rightarrow>
                                (case py_int rt pv of
                                   Inl e \<Rightarrow> (s, Inl (Uncaught e))
                                 | Inr p \<Rightarrow>
                                     (let updated = \<lparr>id' = todo_id, title = ttl,
                                                      is_done = truthy d, priority = p,
                                                      position = position existing\<rparr>
                                      in (s\<lparr>TODOS := AList.update todo_id updated (TODOS s)\<rparr>,
                                          Inr (Todo updated)))))))))"

text \<open>
  \<^verbatim>\<open>put_todo_status\<close> and \<^verbatim>\<open>patch_todo\<close> assign to keys of \<^verbatim>\<open>existing\<close>, which is the
  very dict stored in \<^verbatim>\<open>TODOS\<close>: each assignment changes the store at once, and the final
  \<^verbatim>\<open>TODOS[todo_id] = existing\<close> stores the same object again.
\<close>

definition put_todo_status :: "store \<Rightarrow> int \<Rightarrow> json \<Rightarrow> store \<times> response" where
  "put_todo_status s todo_id body =
     (case get_todo_or_404 s todo_id of
        Inl e \<Rightarrow> (s, Inl e)
      | Inr existing \<Rightarrow>
          (let data = get_json_or_empty body in
           case py_in ''is_done'' data of
             Inl e \<Rightarrow> (s, Inl (Uncaught e))
           | Inr present \<Rightarrow>
               if \<not> present then (s, Inl (ValidationError IsDoneRequired))
               else
                 (case py_getitem data ''is_done'' of
                    Inl e \<Rightarrow> (s, Inl (Uncaught e))
                  | Inr d \<Rightarrow>
                      (let existing' = existing\<lparr>is_done := truthy d\<rparr>
                       in (s\<lparr>TODOS := AList.update todo_id existing' (TODOS s)\<rparr>,
                           Inr (Todo existing'))))))"

text \<open>
  The loop of \<^verbatim>\<open>patch_todo\<close> over \<^verbatim>\<open>allowed_fields\<close>. It returns the todo as the
  assignments made so far have left it, and the exception that ended the loop, if any.
\<close>

fun patch_loop :: "runtime \<Rightarrow> field list \<Rightarrow> json \<Rightarrow> todo \<Rightarrow> todo \<times> py_exception option" where
  "patch_loop rt [] data existing = (existing, None)"
| "patch_loop rt (f # fs) data existing =
     (case py_in (field_name f) data of
        Inl e \<Rightarrow> (existing, Some e)
      | Inr present \<Rightarrow>
          if \<not> present then patch_loop rt fs data existing
          else
            (case py_getitem data (field_name f) of
               Inl e \<Rightarrow> (existing, Some e)
             | Inr v \<Rightarrow>
                 (case f of
                    IsDone \<Rightarrow> patch_loop rt fs data (existing\<lparr>is_done := truthy v\<rparr>)
                  | Priority \<Rightarrow>
                      (case py_int rt v of
                         Inl e \<Rightarrow> (existing, Some e)
                       | Inr p \<Rightarrow> patch_loop rt fs data (existing\<lparr>priority := p\<rparr>))
                  | Title \<Rightarrow> patch_loop rt fs data (existing\<lparr>title := v\<rparr>))))"

definition patch_todo :: "runtime \<Rightarrow> store \<Rightarrow> int \<Rightarrow> json \<Rightarrow> store \<times> response" where
  "patch_todo rt s todo_id body =
     (case get_todo_or_404 s todo_id of
        Inl e \<Rightarrow> (s, Inl e)
      | Inr existing \<Rightarrow>
          (let data = get_json_or_empty body in
           case py_any_in (map field_name (allowed_fields rt)) data of
             Inl e \<Rightarrow> (s, Inl (Uncaught e))
           | Inr present \<Rightarrow>
               if \<not> present then (s, Inl (ValidationError AllowedFieldRequired))
               else
                 (case patch_loop rt (allowed_fields rt) data existing of
                    (existing', Some e) \<Rightarrow>
                      (s\<lparr>TODOS := AList.update todo_id existing' (TODOS s)\<rparr>, Inl (Uncaught e))
                  | (existing', None) \<Rightarrow>
                      (s\<lparr>TODOS := AList.update todo_id existing' (TODOS s)\<rparr>,
                       Inr (Todo existing')))))"

text \<open>
  \<^verbatim>\<open>reorder_todos\<close>. \<^verbatim>\<open>tid not in TODOS\<close> hashes \<^verbatim>\<open>tid\<close>, so the comprehension that
  collects the missing ids raises on a list or a dict.
\<close>

definition in_TODOS :: "json \<Rightarrow> (int \<times> todo) list \<Rightarrow> bool" where
  "in_TODOS tid todos = (case json_key tid of None \<Rightarrow> False | Some k \<Rightarrow> map_of todos k \<noteq> None)"

fun missing_ids :: "json list \<Rightarrow> (int \<times> todo) list \<Rightarrow> py_exception + json list" where
  "missing_ids [] todos = Inr []"
| "missing_ids (tid # order) todos =
     (if \<not> hashable tid then Inl TypeError
      else case missing_ids order todos of
             Inl e \<Rightarrow> Inl e
           | Inr ms \<Rightarrow> Inr (if in_TODOS tid todos then ms else tid # ms))"

text \<open>
  \<^verbatim>\<open>for idx, tid in enumerate(order, start=1): TODOS[tid]["position"] = idx\<close>.
\<close>

fun apply_positions :: "int \<Rightarrow> json list \<Rightarrow> (int \<times> todo) list \<Rightarrow> py_exception + (int \<times> todo) list" where
  "apply_positions idx [] todos = Inr todos"
| "apply_positions idx (tid # order) todos =
     (if \<not> hashable tid then Inl TypeError
      else case json_key tid of
             None \<Rightarrow> Inl KeyError
           | Some k \<Rightarrow>
               (case map_of todos k of
                  None \<Rightarrow> Inl KeyError
                | Some t \<Rightarrow>
                    apply_positions (idx + 1) order (AList.update k (t\<lparr>position := idx\<rparr>) todos)))"

text \<open>
  \<^verbatim>\<open>t["id"] not in order\<close> compares the id with every element of the list by \<^verbatim>\<open>==\<close>.
  The todos that pass are given the positions from \<^verbatim>\<open>len(order) + 1\<close> on, in the
  iteration order of \<^verbatim>\<open>TODOS\<close>; the assignment goes to the stored dict itself, whatever
  its key, so the list comprehension and the loop that follows it are one pass over the
  entries.
\<close>

definition id_in_order :: "int \<Rightarrow> json list \<Rightarrow> bool" where
  "id_in_order i order = (Some i \<in> set (map json_key order))"

fun place_remaining :: "json list \<Rightarrow> int \<Rightarrow> (int \<times> todo) list \<Rightarrow> (int \<times> todo) list" where
  "place_remaining order current_pos [] = []"
| "place_remaining order current_pos ((k, t) # todos) =
     (if id_in_order (id' t) order then (k, t) # place_remaining order current_pos todos
      else (k, t\<lparr>position := current_pos\<rparr>) # place_remaining order (current_pos + 1) todos)"

definition reorder_todos :: "store \<Rightarrow> json \<Rightarrow> store \<times> response" where
  "reorder_todos s body =
     (let data = get_json_or_empty body in
      case py_get data ''order'' JNull of
        Inl e \<Rightarrow> (s, Inl (Uncaught e))
      | Inr (JList order) \<Rightarrow>
          (case missing_ids order (TODOS s) of
             Inl e \<Rightarrow> (s, Inl (Uncaught e))
           | Inr missing \<Rightarrow>
               if missing \<noteq> [] then (s, Inl (ValidationError (UnknownIds missing)))
               else
                 (case apply_positions 1 order (TODOS s) of
                    Inl e \<Rightarrow> (s, Inl (Uncaught e))
                  | Inr todos \<Rightarrow>
                      (let todos' = place_remaining order (int (length order) + 1) todos
                       in (s\<lparr>TODOS := todos'\<rparr>,
                           Inr (TodoList (sort_key position (map snd todos')))))))
      | Inr _ \<Rightarrow> (s, Inl (ValidationError OrderNotList)))"

definition delete_todo :: "store \<Rightarrow> int \<Rightarrow> store \<times> response" where
  "delete_todo s todo_id =
     (case map_of (TODOS s) todo_id of
        None \<Rightarrow> (s, Inl NotFoundError)
      | Some existing \<Rightarrow> (s\<lparr>TODOS := AList.delete todo_id (TODOS s)\<rparr>, Inr (DeletedId todo_id)))"

text \<open>
  \<^verbatim>\<open>request.args.get("completed_only", "false").lower() == "true"\<close>. No character
  outside ASCII has a lower-case form among the letters of \<^verbatim>\<open>true\<close>, so lowering the
  ASCII capitals decides the comparison.
\<close>

definition lower_char :: "char \<Rightarrow> char" where
  "lower_char c =
     (let n = (of_char c :: nat) in if 65 \<le> n \<and> n \<le> 90 then char_of (n + 32) else c)"

definition completed_only_of :: "string option \<Rightarrow> bool" where
  "completed_only_of arg =
     (map lower_char (case arg of None \<Rightarrow> ''false'' | Some v \<Rightarrow> v) = ''true'')"

fun pop_all :: "int list \<Rightarrow> (int \<times> todo) list \<Rightarrow> (int \<times> todo) list" where
  "pop_all [] todos = todos"
| "pop_all (tid # tids) todos = pop_all tids (AList.delete tid todos)"

definition delete_many_todos :: "store \<Rightarrow> string option \<Rightarrow> store \<times> response" where
  "delete_many_todos s arg =
     (if completed_only_of arg then
        (let to_delete = map fst (filter (\<lambda>(tid, t). is_done t) (TODOS s))
         in (s\<lparr>TODOS := pop_all to_delete (TODOS s)\<rparr>, Inr (DeletedIds to_delete True)))
      else
        (let deleted_ids = map fst (TODOS s)
         in (s\<lparr>TODOS := []\<rparr>, Inr (DeletedIds deleted_ids False))))"

section \<open>Requests and runs\<close>

datatype request =
    HealthCheck
  | ListTodos "string option"
  | CreateTodo json
  | CreateTodosBulk json
  | ReplaceTodo int json
  | PutTodoStatus int json
  | PatchTodo int json
  | ReorderTodos json
  | DeleteTodo int
  | DeleteManyTodos "string option"

fun handle :: "runtime \<Rightarrow> store \<Rightarrow> request \<Rightarrow> store \<times> response" where
  "handle rt s HealthCheck = health_check s"
| "handle rt s (ListTodos arg) = list_todos s arg"
| "handle rt s (CreateTodo body) = create_todo rt s body"
| "handle rt s (CreateTodosBulk body) = create_todos_bulk rt s body"
| "handle rt s (ReplaceTodo todo_id body) = replace_todo rt s todo_id body"
| "handle rt s (PutTodoStatus todo_id body) = put_todo_status s todo_id body"
| "handle rt s (PatchTodo todo_id body) = patch_todo rt s todo_id body"
| "handle rt s (ReorderTodos body) = reorder_todos s body"
| "handle rt s (DeleteTodo todo_id) = delete_todo s todo_id"
| "handle rt s (DeleteManyTodos arg) = delete_many_todos s arg"

fun run :: "runtime \<Rightarrow> store \<Rightarrow> request list \<Rightarrow> store" where
  "run rt s [] = s"
| "run rt s (r # rs) = run rt (fst (handle rt s r)) rs"

section \<open>Vocabulary of the statements\<close>

text \<open>
  The representation invariant of the store: \<^verbatim>\<open>TODOS\<close> is a dict, so its keys are
  pairwise different; every todo is stored under its own id; every id in use was taken
  from the counter, which starts at 1. It holds initially and every handler keeps it
  (\<open>wf_store_run\<close> below).
\<close>

definition wf_store :: "store \<Rightarrow> bool" where
  "wf_store s \<longleftrightarrow>
     distinct (map fst (TODOS s)) \<and> 1 \<le> NEXT_ID s \<and>
     (\<forall>(k, t) \<in> set (TODOS s). id' t = k \<and> 1 \<le> k \<and> k < NEXT_ID s)"

text \<open>The todos a status filter asks for, in the words of the interface.\<close>

definition status_selects :: "string option \<Rightarrow> todo \<Rightarrow> bool" where
  "status_selects arg t =
     (if arg = Some ''open'' then \<not> is_done t
      else if arg = Some ''done'' then is_done t
      else True)"

text \<open>
  A concrete interpreter and concrete stores, used to instantiate the theorems. In
  \<open>store_abc\<close> three todos have been created and the second one is done.
\<close>

definition rt_example :: runtime where
  "rt_example = \<lparr>int_of_str = (\<lambda>s. if s = ''7'' then Some 7 else None),
                  allowed_fields = [Title, IsDone, Priority]\<rparr>"

definition store_ab :: store where
  "store_ab =
     \<lparr>TODOS = [(1, \<lparr>id' = 1, title = JStr ''A'', is_done = False, priority = 1, position = 1\<rparr>),
               (2, \<lparr>id' = 2, title = JStr ''B'', is_done = False, priority = 1, position = 2\<rparr>)],
      NEXT_ID = 3\<rparr>"

definition store_abc :: store where
  "store_abc =
     \<lparr>TODOS = [(1, \<lparr>id' = 1, title = JStr ''A'', is_done = False, priority = 1, position = 1\<rparr>),
               (2, \<lparr>id' = 2, title = JStr ''B'', is_done = True, priority = 5, position = 2\<rparr>),
               (3, \<lparr>id' = 3, title = JStr ''C'', is_done = False, priority = 1, position = 3\<rparr>)],
      NEXT_ID = 4\<rparr>"

text \<open>
  Vocabulary for the result of \<^verbatim>\<open>reorder_todos\<close>. \<open>assigned idx ids k\<close> is the position
  that the loop over \<^verbatim>\<open>enumerate(order, start=idx)\<close> leaves with key \<open>k\<close>: the index of the
  last occurrence of \<open>k\<close>. \<open>reordered ids todos\<close> is the dict after both loops, and
  \<open>unmentioned ids s\<close> lists the keys of the store that \<open>ids\<close> does not mention, in
  iteration order. \<open>keyed\<close> is the part of \<open>wf_store\<close> that says that every todo is
  stored under its own id.
\<close>

fun assigned :: "int \<Rightarrow> int list \<Rightarrow> int \<Rightarrow> int option" where
  "assigned idx [] k = None"
| "assigned idx (i # ids) k =
     (case assigned (idx + 1) ids k of
        Some p \<Rightarrow> Some p
      | None \<Rightarrow> if i = k then Some idx else None)"

definition keyed :: "(int \<times> todo) list \<Rightarrow> bool" where
  "keyed todos \<longleftrightarrow> (\<forall>e\<in>set todos. id' (snd e) = fst e)"

definition positioned :: "int list \<Rightarrow> (int \<times> todo) list \<Rightarrow> (int \<times> todo) list" where
  "positioned ids todos =
     map (\<lambda>(k, t). (k, case assigned 1 ids k of None \<Rightarrow> t | Some p \<Rightarrow> t\<lparr>position := p\<rparr>)) todos"

definition reordered :: "int list \<Rightarrow> (int \<times> todo) list \<Rightarrow> (int \<times> todo) list" where
  "reordered ids todos =
     place_remaining (map JInt ids) (int (length ids) + 1) (positioned ids todos)"

definition unmentioned :: "int list \<Rightarrow> store \<Rightarrow> int list" where
  "unmentioned ids s = filter (\<lambda>k. k \<notin> set ids) (map fst (TODOS s))"






text \<open>
  Vocabulary for creation. \<open>item_get item k d\<close> is the value that an item supplies for the
  key \<open>k\<close>, or the default \<open>d\<close>; an item \<open>has_title\<close> when its title is truthy;
  \<open>made_from rt t item\<close> says that the todo \<open>t\<close> carries the title of the item, the
  \<^verbatim>\<open>bool()\<close> of its \<^verbatim>\<open>is_done\<close> and the \<^verbatim>\<open>int()\<close> of its \<^verbatim>\<open>priority\<close>; an item is
  \<open>creatable\<close> when it is an object and, if it has a title, \<^verbatim>\<open>int()\<close> accepts its
  priority.
\<close>

definition item_get :: "json \<Rightarrow> string \<Rightarrow> json \<Rightarrow> json" where
  "item_get item k d = (case py_get item k d of Inr v \<Rightarrow> v | Inl e \<Rightarrow> d)"

definition has_title :: "json \<Rightarrow> bool" where
  "has_title item = truthy (item_get item ''title'' JNull)"

definition made_from :: "runtime \<Rightarrow> todo \<Rightarrow> json \<Rightarrow> bool" where
  "made_from rt t item \<longleftrightarrow>
     title t = item_get item ''title'' JNull \<and>
     is_done t = truthy (item_get item ''is_done'' (JBool False)) \<and>
     py_int rt (item_get item ''priority'' (JInt 1)) = Inr (priority t)"

definition creatable :: "runtime \<Rightarrow> json \<Rightarrow> bool" where
  "creatable rt item =
     (case item of
        JObj kvs \<Rightarrow>
          \<not> has_title item \<or>
          (case py_int rt (item_get item ''priority'' (JInt 1)) of Inr p \<Rightarrow> True | Inl e \<Rightarrow> False)
      | _ \<Rightarrow> False)"

text \<open>
  The exceptions that \<^verbatim>\<open>int()\<close> raises, and the creations that fail with one of
  them: a request to \<^verbatim>\<open>create_todo\<close> or \<^verbatim>\<open>create_todos_bulk\<close> that an exception of
  \<^verbatim>\<open>int(priority)\<close> has ended (the only other exception of these two handlers is the
  \<^verbatim>\<open>AttributeError\<close> of \<^verbatim>\<open>.get\<close> on a value that is not a dict).
  \<open>failed_creations\<close> counts them along a run.
\<close>

definition int_raises :: "py_exception \<Rightarrow> bool" where
  "int_raises e \<longleftrightarrow> e = TypeError \<or> e = ValueError \<or> e = OverflowError"

definition failed_creation :: "request \<Rightarrow> response \<Rightarrow> bool" where
  "failed_creation r resp =
     (case r of
        CreateTodo body \<Rightarrow> (case resp of Inl (Uncaught e) \<Rightarrow> int_raises e | _ \<Rightarrow> False)
      | CreateTodosBulk body \<Rightarrow> (case resp of Inl (Uncaught e) \<Rightarrow> int_raises e | _ \<Rightarrow> False)
      | _ \<Rightarrow> False)"




text \<open>
  Vocabulary for the updates. \<open>patched rt kvs old\<close> is the todo \<open>old\<close> with each of the
  three recognised fields that the object \<open>kvs\<close> supplies replaced by the supplied value
  (coerced as \<^verbatim>\<open>patch_todo\<close> does), and every other field as it was. A body is
  \<open>patchable\<close> when it supplies at least one recognised field and \<^verbatim>\<open>int()\<close> accepts the
  priority it supplies, if any.
\<close>

definition patched :: "runtime \<Rightarrow> (string \<times> json) list \<Rightarrow> todo \<Rightarrow> todo" where
  "patched rt kvs old =
     old\<lparr>title := (case map_of kvs ''title'' of None \<Rightarrow> title old | Some v \<Rightarrow> v),
         is_done := (case map_of kvs ''is_done'' of None \<Rightarrow> is_done old | Some v \<Rightarrow> truthy v),
         priority := (case map_of kvs ''priority'' of
                        None \<Rightarrow> priority old
                      | Some v \<Rightarrow> (case py_int rt v of Inr p \<Rightarrow> p | Inl e \<Rightarrow> priority old))\<rparr>"

definition patchable :: "runtime \<Rightarrow> (string \<times> json) list \<Rightarrow> bool" where
  "patchable rt kvs \<longleftrightarrow>
     (map_of kvs ''title'' \<noteq> None \<or> map_of kvs ''is_done'' \<noteq> None \<or> map_of kvs ''priority'' \<noteq> None)
     \<and> (case map_of kvs ''priority'' of
           None \<Rightarrow> True
         | Some v \<Rightarrow> (case py_int rt v of Inr p \<Rightarrow> True | Inl e \<Rightarrow> False))"

text \<open>
  An item is \<open>untitled\<close> when it is an object whose title is missing or falsy (the empty
  string, for example): the items that the loop of \<^verbatim>\<open>create_todos_bulk\<close> skips.
\<close>

definition untitled :: "json \<Rightarrow> bool" where
  "untitled item = (case item of JObj kvs \<Rightarrow> \<not> has_title item | _ \<Rightarrow> False)"

text \<open>
  A list of items for a bulk create: the second has no title and the third an empty
  one.
\<close>

definition items_example :: "json list" where
  "items_example =
     [JObj [(''title'', JStr ''C''), (''is_done'', JStr ''false'')],
      JObj [(''priority'', JInt 3)],
      JObj [(''title'', JStr []), (''priority'', JNull)],
      JObj [(''title'', JStr ''D''), (''priority'', JStr ''7'')]]"

section \<open>reorder: unknown ids\<close>

lemma missing_ids_hashable:
  "\<forall>tid\<in>set order. hashable tid \<Longrightarrow>
   missing_ids order todos = Inr (filter (\<lambda>tid. \<not> in_TODOS tid todos) order)"
  by (induction order) auto

lemma in_TODOS_JInt: "in_TODOS (JInt i) todos \<longleftrightarrow> i \<in> fst ` set todos"
  by (simp add: in_TODOS_def map_of_eq_None_iff)

lemma reorder_cases:
  "fst (reorder_todos s body) = s \<or> (\<exists>r. snd (reorder_todos s body) = Inr r)"
  by (simp add: reorder_todos_def Let_def split: sum.split json.split)

lemma reorder_failure_leaves_store:
  "snd (reorder_todos s body) = Inl e \<Longrightarrow> fst (reorder_todos s body) = s"
  using reorder_cases [of s body] by auto

lemma missing_ids_unhashable:
  "\<not> (\<forall>tid\<in>set order. hashable tid) \<Longrightarrow> missing_ids order todos = Inl TypeError"
  by (induction order) (auto split: sum.split)

text \<open>
  Claim C1, as the code has it. When the body carries a list \<open>order\<close> and one of its
  elements is not a key of \<^verbatim>\<open>TODOS\<close>, \<^verbatim>\<open>reorder_todos\<close> fails and the store it leaves
  is the store it found: no position and no other field has changed. When every element
  of \<open>order\<close> can be looked up in a dict (numbers, booleans, strings, null), the failure
  is the validation error that lists every unknown element of \<open>order\<close>, in order. When
  \<open>order\<close> holds a list or an object, the lookup itself raises: the failure is an
  uncaught \<^verbatim>\<open>TypeError\<close> and no unknown id is reported. For an integer \<open>i\<close>,
  \<open>in_TODOS (JInt i)\<close> is membership among the keys (\<open>in_TODOS_JInt\<close>).
\<close>

theorem reorder_unknown_ids_rejected:
  assumes "map_of kvs ''order'' = Some (JList order)"
    and "\<exists>tid\<in>set order. \<not> in_TODOS tid (TODOS s)"
  shows "reorder_todos s (JObj kvs) =
           (s, Inl (if \<forall>tid\<in>set order. hashable tid
                    then ValidationError
                           (UnknownIds (filter (\<lambda>tid. \<not> in_TODOS tid (TODOS s)) order))
                    else Uncaught TypeError))"
proof -
  from assms(1) have "kvs \<noteq> []" by auto
  then have data: "get_json_or_empty (JObj kvs) = JObj kvs"
    by (simp add: get_json_or_empty_def)
  show ?thesis
  proof (cases "\<forall>tid\<in>set order. hashable tid")
    case True
    from assms(2) have "filter (\<lambda>tid. \<not> in_TODOS tid (TODOS s)) order \<noteq> []"
      by (simp add: filter_empty_conv)
    with assms(1) data True show ?thesis
      by (simp add: reorder_todos_def missing_ids_hashable)
  next
    case False
    from missing_ids_unhashable [OF False] assms(1) data False show ?thesis
      by (simp add: reorder_todos_def)
  qed
qed

theorem reorder_unknown_ids_rejected_witness:
  "reorder_todos store_ab (JObj [(''order'', JList [JInt 2, JInt 7, JInt 1, JInt 9])]) =
     (store_ab, Inl (ValidationError (UnknownIds [JInt 7, JInt 9])))
   \<and> reorder_todos store_ab (JObj [(''order'', JList [JInt 2, JStr ''1'', JNull, JInt 1])]) =
     (store_ab, Inl (ValidationError (UnknownIds [JStr ''1'', JNull])))"
  using reorder_unknown_ids_rejected
          [of "[(''order'', JList [JInt 2, JInt 7, JInt 1, JInt 9])]"
              "[JInt 2, JInt 7, JInt 1, JInt 9]" store_ab]
        reorder_unknown_ids_rejected
          [of "[(''order'', JList [JInt 2, JStr ''1'', JNull, JInt 1])]"
              "[JInt 2, JStr ''1'', JNull, JInt 1]" store_ab]
  by (simp add: store_ab_def in_TODOS_def)

text \<open>
  An unknown id is not always reported: in the order \<open>[7, [1]]\<close> the id 7 is unknown,
  but looking up the list \<open>[1]\<close> in \<^verbatim>\<open>TODOS\<close> raises \<^verbatim>\<open>TypeError\<close> inside the
  comprehension that collects the unknown ids, so the request ends with that exception
  and not with a validation error. The store is unchanged.
\<close>

theorem reorder_unhashable_id_not_reported:
  "reorder_todos store_ab (JObj [(''order'', JList [JInt 7, JList [JInt 1]])]) =
     (store_ab, Inl (Uncaught TypeError))"
  by (simp add: reorder_todos_def get_json_or_empty_def store_ab_def in_TODOS_def)

section \<open>delete_many_todos\<close>

lemma pop_all_filter: "pop_all tids todos = filter (\<lambda>(k, t). k \<notin> set tids) todos"
proof (induction tids arbitrary: todos)
  case Nil
  then show ?case by simp
next
  case (Cons tid tids)
  have "filter (\<lambda>(k, t). k \<notin> set tids) (filter (\<lambda>(k', _). tid \<noteq> k') todos)
        = filter (\<lambda>(k, t). k \<notin> set (tid # tids)) todos"
    by (auto intro: filter_cong)
  with Cons show ?case by (simp add: AList.delete_eq)
qed

lemma pop_done_keys:
  assumes "distinct (map fst todos)"
  shows "pop_all (map fst (filter (\<lambda>(tid, t). is_done t) todos)) todos
         = filter (\<lambda>(tid, t). \<not> is_done t) todos"
  unfolding pop_all_filter
proof (rule filter_cong [OF refl])
  fix x
  assume x: "x \<in> set todos"
  obtain k t where kt: "x = (k, t)" by (cases x)
  have same: "t' = t" if "(k, t') \<in> set todos" for t'
    using assms that x unfolding kt by (rule eq_key_imp_eq_value)
  have "k \<in> fst ` set (filter (\<lambda>(tid, t). is_done t) todos) \<longleftrightarrow> is_done t"
  proof
    assume "k \<in> fst ` set (filter (\<lambda>(tid, t). is_done t) todos)"
    then obtain t' where "(k, t') \<in> set todos" "is_done t'" by auto
    with same show "is_done t" by blast
  next
    assume "is_done t"
    with x kt have "(k, t) \<in> set (filter (\<lambda>(tid, t). is_done t) todos)" by simp
    then show "k \<in> fst ` set (filter (\<lambda>(tid, t). is_done t) todos)" by force
  qed
  then show "(case x of (k, t) \<Rightarrow> k \<notin> set (map fst (filter (\<lambda>(tid, t). is_done t) todos)))
             = (case x of (tid, t) \<Rightarrow> \<not> is_done t)"
    by (simp add: kt)
qed

lemma completed_only_true: "completed_only_of (Some ''true'')"
  by code_simp

lemma completed_only_default: "\<not> completed_only_of None"
  by code_simp

text \<open>
  Claim C8. \<^verbatim>\<open>delete_many_todos\<close> always answers with the list of deleted ids, never
  with an error. With \<^verbatim>\<open>completed_only=true\<close> the store keeps exactly the entries that
  are not done, each one as it was and in the same order, and the answer lists the keys
  of the done ones; otherwise the store is emptied and the answer lists every key it
  had. On an empty store the answer is the empty list either way.
\<close>

theorem delete_many_never_fails:
  assumes "distinct (map fst (TODOS s))"
  shows "delete_many_todos s arg =
           (if completed_only_of arg
            then (s\<lparr>TODOS := filter (\<lambda>(tid, t). \<not> is_done t) (TODOS s)\<rparr>,
                  Inr (DeletedIds (map fst (filter (\<lambda>(tid, t). is_done t) (TODOS s))) True))
            else (s\<lparr>TODOS := []\<rparr>, Inr (DeletedIds (map fst (TODOS s)) False)))
         \<and> (TODOS s = [] \<longrightarrow>
              delete_many_todos s arg = (s, Inr (DeletedIds [] (completed_only_of arg))))"
  using assms by (simp add: delete_many_todos_def pop_done_keys)

theorem delete_many_never_fails_witness:
  "distinct (map fst (TODOS store_abc))
   \<and> delete_many_todos store_abc (Some ''true'') =
       (\<lparr>TODOS = [(1, \<lparr>id' = 1, title = JStr ''A'', is_done = False, priority = 1, position = 1\<rparr>),
                 (3, \<lparr>id' = 3, title = JStr ''C'', is_done = False, priority = 1, position = 3\<rparr>)],
         NEXT_ID = 4\<rparr>,
        Inr (DeletedIds [2] True))
   \<and> delete_many_todos store_abc None = (\<lparr>TODOS = [], NEXT_ID = 4\<rparr>, Inr (DeletedIds [1, 2, 3] False))
   \<and> delete_many_todos init_store (Some ''true'') = (init_store, Inr (DeletedIds [] True))"
  using delete_many_never_fails [of store_abc "Some ''true''"]
    delete_many_never_fails [of store_abc None]
    delete_many_never_fails [of init_store "Some ''true''"]
  by (simp add: store_abc_def init_store_def completed_only_true completed_only_default)

section \<open>list_todos\<close>

text \<open>
  Claim C9. \<^verbatim>\<open>list_todos\<close> leaves the store as it is and answers with a list whose
  positions ascend and which holds exactly the todos the status filter selects, each as
  often as \<^verbatim>\<open>TODOS\<close> holds it: the open ones for \<^verbatim>\<open>open\<close>, the done ones for
  \<^verbatim>\<open>done\<close>, all of them for \<^verbatim>\<open>all\<close>, for a missing argument and for any other
  value.
\<close>

theorem list_todos_filters_and_sorts:
  "fst (list_todos s arg) = s \<and>
   (\<exists>ts. snd (list_todos s arg) = Inr (TodoList ts) \<and>
         sorted (map position ts) \<and>
         mset ts = mset (filter (status_selects arg) (map snd (TODOS s))))"
proof -
  have "filter (status_selects arg) xs =
          (if arg = Some ''open'' then filter (\<lambda>t. \<not> is_done t) xs
           else if arg = Some ''done'' then filter (\<lambda>t. is_done t) xs else xs)" for xs
    by (auto simp: status_selects_def intro: filter_cong)
  then show ?thesis
    by (auto simp: list_todos_def Let_def split: option.splits)
qed

theorem list_todos_filters_and_sorts_witness:
  "fst (list_todos store_abc (Some ''done'')) = store_abc \<and>
   (\<exists>ts. snd (list_todos store_abc (Some ''done'')) = Inr (TodoList ts) \<and>
         sorted (map position ts) \<and>
         mset ts = mset (filter (status_selects (Some ''done'')) (map snd (TODOS store_abc))))"
  by (rule list_todos_filters_and_sorts)

section \<open>reorder: the positions it assigns\<close>

lemma assigned_None: "assigned idx ids k = None \<longleftrightarrow> k \<notin> set ids"
proof (induction ids arbitrary: idx)
  case Nil
  then show ?case by simp
next
  case (Cons i ids)
  from Cons.IH [of "idx + 1"] show ?case by (auto split: option.splits)
qed

lemma assigned_range:
  "assigned idx ids k = Some p \<Longrightarrow>
   idx \<le> p \<and> p < idx + int (length ids) \<and> ids ! nat (p - idx) = k"
proof (induction ids arbitrary: idx)
  case Nil
  then show ?case by simp
next
  case (Cons i ids)
  show ?case
  proof (cases "assigned (idx + 1) ids k")
    case None
    with Cons.prems show ?thesis by (auto split: if_splits)
  next
    case (Some q)
    with Cons.prems have "q = p" by simp
    with Some Cons.IH [of "idx + 1"] have
      *: "idx + 1 \<le> p" "p < idx + 1 + int (length ids)" "ids ! nat (p - (idx + 1)) = k"
      by auto
    from *(1) have "nat (p - idx) = Suc (nat (p - (idx + 1)))" by simp
    with * show ?thesis by simp
  qed
qed

lemma assigned_last:
  "i < length ids \<Longrightarrow> ids ! i \<notin> set (drop (Suc i) ids) \<Longrightarrow>
   assigned idx ids (ids ! i) = Some (idx + int i)"
proof (induction ids arbitrary: idx i)
  case Nil
  then show ?case by simp
next
  case (Cons a ids)
  show ?case
  proof (cases i)
    case 0
    with Cons.prems have "a \<notin> set ids" by simp
    then have "assigned (idx + 1) ids a = None" by (simp add: assigned_None)
    with 0 show ?thesis by simp
  next
    case (Suc j)
    with Cons.prems have "j < length ids" "ids ! j \<notin> set (drop (Suc j) ids)" by simp_all
    from Cons.IH [OF this, of "idx + 1"] Suc show ?thesis by simp
  qed
qed

lemma update_distinct_map:
  "distinct (map fst al) \<Longrightarrow> map_of al k = Some v \<Longrightarrow>
   AList.update k w al = map (\<lambda>(k', v'). (k', if k' = k then w else v')) al"
proof (induction al)
  case Nil
  then show ?case by simp
next
  case (Cons a al)
  obtain k' v' where a: "a = (k', v')" by (cases a)
  show ?case
  proof (cases "k' = k")
    case True
    with Cons.prems a have "k \<notin> fst ` set al" by auto
    then have "map (\<lambda>(k', v'). (k', if k' = k then w else v')) al = al"
      by (induction al) auto
    with True a show ?thesis by simp
  next
    case False
    with Cons a show ?thesis by simp
  qed
qed

lemma apply_positions_map:
  "distinct (map fst todos) \<Longrightarrow> set ids \<subseteq> fst ` set todos \<Longrightarrow>
   apply_positions idx (map JInt ids) todos =
     Inr (map (\<lambda>(k, t). (k, case assigned idx ids k of None \<Rightarrow> t | Some p \<Rightarrow> t\<lparr>position := p\<rparr>)) todos)"
proof (induction ids arbitrary: idx todos)
  case Nil
  then show ?case by simp
next
  case (Cons i ids)
  from Cons.prems obtain t where t: "map_of todos i = Some t"
    by (auto simp: map_of_eq_None_iff [symmetric] simp del: map_of_eq_None_iff)
  let ?todos1 = "AList.update i (t\<lparr>position := idx\<rparr>) todos"
  have upd: "?todos1 = map (\<lambda>(k', v'). (k', if k' = i then t\<lparr>position := idx\<rparr> else v')) todos"
    using Cons.prems(1) t by (rule update_distinct_map)
  have keys1: "map fst ?todos1 = map fst todos"
    using Cons.prems(2) by (auto simp: AList.update_keys)
  have d1: "distinct (map fst ?todos1)" and s1: "set ids \<subseteq> fst ` set ?todos1"
    using Cons.prems keys1 by (auto simp: AList.dom_update)
  have val: "v' = t" if "(i, v') \<in> set todos" for v'
    using Cons.prems(1) that t by simp
  have "map (\<lambda>(k, t). (k, case assigned (idx + 1) ids k of None \<Rightarrow> t | Some p \<Rightarrow> t\<lparr>position := p\<rparr>)) ?todos1
        = map (\<lambda>(k, t). (k, case assigned idx (i # ids) k of None \<Rightarrow> t | Some p \<Rightarrow> t\<lparr>position := p\<rparr>)) todos"
    unfolding upd using val by (auto split: option.splits)
  with Cons.IH [OF d1 s1, of "idx + 1"] t show ?case by simp
qed

lemma id_in_order_JInt: "id_in_order i (map JInt ids) \<longleftrightarrow> i \<in> set ids"
  by (auto simp: id_in_order_def image_iff)

lemma place_remaining_keys: "map fst (place_remaining order pos todos) = map fst todos"
  by (induction order pos todos rule: place_remaining.induct) auto

lemma place_remaining_mentioned:
  "filter (\<lambda>(k, t). id_in_order (id' t) order) (place_remaining order pos todos)
   = filter (\<lambda>(k, t). id_in_order (id' t) order) todos"
  by (induction order pos todos rule: place_remaining.induct) auto

lemma place_remaining_rest:
  "filter (\<lambda>(k, t). \<not> id_in_order (id' t) order) (place_remaining order pos todos)
   = map (\<lambda>(j, (k, t)). (k, t\<lparr>position := pos + int j\<rparr>))
       (enumerate 0 (filter (\<lambda>(k, t). \<not> id_in_order (id' t) order) todos))"
proof (induction order pos todos rule: place_remaining.induct)
  case (1 order current_pos)
  then show ?case by simp
next
  case (2 order current_pos k t todos)
  show ?case
  proof (cases "id_in_order (id' t) order")
    case True
    with 2 show ?thesis by simp
  next
    case False
    have "map (\<lambda>(j, (k, t)). (k, t\<lparr>position := current_pos + int j\<rparr>)) (enumerate (Suc 0) xs)
          = map (\<lambda>(j, (k, t)). (k, t\<lparr>position := current_pos + 1 + int j\<rparr>)) (enumerate 0 xs)" for xs :: "(int \<times> todo) list"
      by (rule nth_equalityI) (auto simp: nth_enumerate_eq add_ac split: prod.splits)
    with False 2 show ?thesis by simp
  qed
qed

lemma wf_store_keyed: "wf_store s \<Longrightarrow> keyed (TODOS s) \<and> distinct (map fst (TODOS s))"
  by (auto simp: wf_store_def keyed_def)

lemma keyed_positioned: "keyed todos \<Longrightarrow> keyed (positioned ids todos)"
  by (auto simp: keyed_def positioned_def split: option.splits)

lemma keyed_place_remaining: "keyed todos \<Longrightarrow> keyed (place_remaining order pos todos)"
  by (induction order pos todos rule: place_remaining.induct) (auto simp: keyed_def)

lemma keyed_reordered: "keyed todos \<Longrightarrow> keyed (reordered ids todos)"
  by (simp add: reordered_def keyed_place_remaining keyed_positioned)

lemma keys_positioned: "map fst (positioned ids todos) = map fst todos"
  by (induction todos) (auto simp: positioned_def)

lemma keys_reordered: "map fst (reordered ids todos) = map fst todos"
  by (simp add: reordered_def place_remaining_keys keys_positioned)

lemma keyed_filter_mentioned:
  assumes "keyed todos"
  shows "filter (\<lambda>(k, t). id_in_order (id' t) (map JInt ids)) todos
         = filter (\<lambda>e. fst e \<in> set ids) todos"
  using assms by (auto simp: keyed_def id_in_order_JInt intro!: filter_cong)

lemma keyed_filter_rest:
  assumes "keyed todos"
  shows "filter (\<lambda>(k, t). \<not> id_in_order (id' t) (map JInt ids)) todos
         = filter (\<lambda>e. fst e \<notin> set ids) todos"
  using assms by (auto simp: keyed_def id_in_order_JInt intro!: filter_cong)

lemma positioned_mentioned:
  "filter (\<lambda>e. fst e \<in> set ids) (positioned ids todos)
   = map (\<lambda>(k, t). (k, t\<lparr>position := the (assigned 1 ids k)\<rparr>))
       (filter (\<lambda>e. fst e \<in> set ids) todos)"
proof (induction todos)
  case Nil
  then show ?case by (simp add: positioned_def)
next
  case (Cons e todos)
  obtain k t where e: "e = (k, t)" by (cases e)
  from Cons have IH: "filter (\<lambda>e. fst e \<in> set ids) (positioned ids todos)
   = map (\<lambda>(k, t). (k, t\<lparr>position := the (assigned 1 ids k)\<rparr>))
       (filter (\<lambda>e. fst e \<in> set ids) todos)" .
  have pc: "positioned ids ((k, t) # todos)
            = (k, case assigned 1 ids k of None \<Rightarrow> t | Some p \<Rightarrow> t\<lparr>position := p\<rparr>) # positioned ids todos"
    by (simp add: positioned_def)
  show ?case
  proof (cases "k \<in> set ids")
    case True
    then obtain p where "assigned 1 ids k = Some p"
      using assigned_None [of 1 ids k] by (cases "assigned 1 ids k") auto
    with True IH show ?thesis by (simp add: pc e)
  next
    case False
    with IH show ?thesis by (simp add: pc e)
  qed
qed

lemma positioned_rest:
  "filter (\<lambda>e. fst e \<notin> set ids) (positioned ids todos) = filter (\<lambda>e. fst e \<notin> set ids) todos"
proof (induction todos)
  case Nil
  then show ?case by (simp add: positioned_def)
next
  case (Cons e todos)
  obtain k t where e: "e = (k, t)" by (cases e)
  have pc: "positioned ids ((k, t) # todos)
            = (k, case assigned 1 ids k of None \<Rightarrow> t | Some p \<Rightarrow> t\<lparr>position := p\<rparr>) # positioned ids todos"
    by (simp add: positioned_def)
  from Cons show ?case by (simp add: pc e assigned_None [THEN iffD2])
qed

lemma reordered_mentioned:
  assumes "keyed todos"
  shows "filter (\<lambda>e. fst e \<in> set ids) (reordered ids todos)
         = map (\<lambda>(k, t). (k, t\<lparr>position := the (assigned 1 ids k)\<rparr>))
             (filter (\<lambda>e. fst e \<in> set ids) todos)"
proof -
  have "filter (\<lambda>e. fst e \<in> set ids) (reordered ids todos)
        = filter (\<lambda>(k, t). id_in_order (id' t) (map JInt ids)) (reordered ids todos)"
    using keyed_reordered [OF assms] by (simp add: keyed_filter_mentioned)
  also have "\<dots> = filter (\<lambda>(k, t). id_in_order (id' t) (map JInt ids)) (positioned ids todos)"
    by (simp add: reordered_def place_remaining_mentioned)
  also have "\<dots> = filter (\<lambda>e. fst e \<in> set ids) (positioned ids todos)"
    using keyed_positioned [OF assms] by (simp add: keyed_filter_mentioned)
  finally show ?thesis by (simp add: positioned_mentioned)
qed

lemma reordered_rest:
  assumes "keyed todos"
  shows "filter (\<lambda>e. fst e \<notin> set ids) (reordered ids todos)
         = map (\<lambda>(j, (k, t)). (k, t\<lparr>position := int (length ids) + 1 + int j\<rparr>))
             (enumerate 0 (filter (\<lambda>e. fst e \<notin> set ids) todos))"
proof -
  have "filter (\<lambda>e. fst e \<notin> set ids) (reordered ids todos)
        = filter (\<lambda>(k, t). \<not> id_in_order (id' t) (map JInt ids)) (reordered ids todos)"
    using keyed_reordered [OF assms] by (simp add: keyed_filter_rest)
  also have "\<dots> = map (\<lambda>(j, (k, t)). (k, t\<lparr>position := int (length ids) + 1 + int j\<rparr>))
             (enumerate 0 (filter (\<lambda>(k, t). \<not> id_in_order (id' t) (map JInt ids)) (positioned ids todos)))"
    by (simp add: reordered_def place_remaining_rest)
  also have "filter (\<lambda>(k, t). \<not> id_in_order (id' t) (map JInt ids)) (positioned ids todos)
             = filter (\<lambda>e. fst e \<notin> set ids) todos"
    using keyed_positioned [OF assms] by (simp add: keyed_filter_rest positioned_rest)
  finally show ?thesis .
qed

lemma reorder_success:
  assumes "wf_store s"
    and "map_of kvs ''order'' = Some (JList (map JInt ids))"
    and "set ids \<subseteq> fst ` set (TODOS s)"
  shows "reorder_todos s (JObj kvs) =
           (s\<lparr>TODOS := reordered ids (TODOS s)\<rparr>,
            Inr (TodoList (sort_key position (map snd (reordered ids (TODOS s))))))"
proof -
  from assms(2) have "kvs \<noteq> []" by auto
  then have data: "get_json_or_empty (JObj kvs) = JObj kvs"
    by (simp add: get_json_or_empty_def)
  have "filter (\<lambda>tid. \<not> in_TODOS tid (TODOS s)) (map JInt ids) = []"
    using assms(3) by (auto simp: filter_empty_conv in_TODOS_JInt)
  then have missing: "missing_ids (map JInt ids) (TODOS s) = Inr []"
    by (simp add: missing_ids_hashable)
  have "distinct (map fst (TODOS s))" using assms(1) by (simp add: wf_store_def)
  then have "apply_positions 1 (map JInt ids) (TODOS s) = Inr (positioned ids (TODOS s))"
    using assms(3) unfolding positioned_def by (rule apply_positions_map)
  with data missing assms(2) show ?thesis
    by (simp add: reorder_todos_def reordered_def Let_def)
qed

lemma map_of_reordered_mentioned:
  assumes "keyed todos" and "distinct (map fst todos)"
    and "map_of todos k = Some t" and "k \<in> set ids"
  shows "map_of (reordered ids todos) k = Some (t\<lparr>position := the (assigned 1 ids k)\<rparr>)"
proof -
  from assms(3) have "(k, t) \<in> set todos" by (rule map_of_SomeD)
  with assms(4) have "(k, t) \<in> set (filter (\<lambda>e. fst e \<in> set ids) todos)" by simp
  then have "(k, t\<lparr>position := the (assigned 1 ids k)\<rparr>)
               \<in> set (filter (\<lambda>e. fst e \<in> set ids) (reordered ids todos))"
    unfolding reordered_mentioned [OF assms(1)] by force
  then have "(k, t\<lparr>position := the (assigned 1 ids k)\<rparr>) \<in> set (reordered ids todos)"
    by simp
  moreover have "distinct (map fst (reordered ids todos))"
    using assms(2) by (simp add: keys_reordered)
  ultimately show ?thesis by simp
qed

lemma map_of_reordered_rest:
  assumes "keyed todos" and "distinct (map fst todos)"
    and "j < length (filter (\<lambda>k. k \<notin> set ids) (map fst todos))"
  shows "map_of (reordered ids todos) (filter (\<lambda>k. k \<notin> set ids) (map fst todos) ! j)
         = map_option (\<lambda>t. t\<lparr>position := int (length ids) + 1 + int j\<rparr>)
             (map_of todos (filter (\<lambda>k. k \<notin> set ids) (map fst todos) ! j))"
proof -
  let ?R = "filter (\<lambda>e. fst e \<notin> set ids) todos"
  have keys: "filter (\<lambda>k. k \<notin> set ids) (map fst todos) = map fst ?R"
    by (simp add: filter_map comp_def)
  with assms(3) have j: "j < length ?R" by simp
  obtain k t where kt: "?R ! j = (k, t)" by (cases "?R ! j")
  with j keys have k: "filter (\<lambda>k. k \<notin> set ids) (map fst todos) ! j = k" by simp
  from j kt have "(k, t) \<in> set ?R" by (metis nth_mem)
  then have "(k, t) \<in> set todos" by simp
  with assms(2) have old: "map_of todos k = Some t" by simp
  have "filter (\<lambda>e. fst e \<notin> set ids) (reordered ids todos) ! j
        = (k, t\<lparr>position := int (length ids) + 1 + int j\<rparr>)"
    unfolding reordered_rest [OF assms(1)] using j kt by (simp add: nth_enumerate_eq)
  moreover have "j < length (filter (\<lambda>e. fst e \<notin> set ids) (reordered ids todos))"
    unfolding reordered_rest [OF assms(1)] using j by simp
  ultimately have "(k, t\<lparr>position := int (length ids) + 1 + int j\<rparr>)
                     \<in> set (filter (\<lambda>e. fst e \<notin> set ids) (reordered ids todos))"
    by (metis nth_mem)
  then have "(k, t\<lparr>position := int (length ids) + 1 + int j\<rparr>) \<in> set (reordered ids todos)"
    by simp
  moreover have "distinct (map fst (reordered ids todos))"
    using assms(2) by (simp add: keys_reordered)
  ultimately have "map_of (reordered ids todos) k = Some (t\<lparr>position := int (length ids) + 1 + int j\<rparr>)"
    by simp
  with old k show ?thesis by simp
qed

lemma nth_not_later:
  assumes "distinct ids" and "i < length ids"
  shows "ids ! i \<notin> set (drop (Suc i) ids)"
proof
  assume "ids ! i \<in> set (drop (Suc i) ids)"
  then obtain j where j: "j < length (drop (Suc i) ids)" "drop (Suc i) ids ! j = ids ! i"
    by (auto simp: in_set_conv_nth)
  then have "ids ! (Suc i + j) = ids ! i" "Suc i + j < length ids" by auto
  with assms show False by (auto simp: nth_eq_iff_index_eq)
qed

text \<open>
  Claim C3. For a well-formed store and a body whose \<^verbatim>\<open>order\<close> is a list \<open>ids\<close> of
  existing ids, \<^verbatim>\<open>reorder_todos\<close> succeeds; it changes nothing but positions and keeps
  the keys of the store and their order. The todo named at index \<open>i\<close> of \<open>ids\<close> ends
  with position \<open>i + 1\<close>: for every index when no id is repeated, and in general for
  every index whose id does not occur again later (the assignments are made in
  sequence, so the one for the last occurrence stays). The todos that \<open>ids\<close> does not mention
  get the positions \<open>length ids + 1\<close>, \<open>length ids + 2\<close>, ... in the iteration order of
  the store. The answer is the list of all todos of the new store, sorted by position.
\<close>

theorem reorder_assigns_positions:
  assumes "wf_store s"
    and "map_of kvs ''order'' = Some (JList (map JInt ids))"
    and "set ids \<subseteq> fst ` set (TODOS s)"
  shows "let res = reorder_todos s (JObj kvs); todos' = TODOS (fst res) in
           fst res = s\<lparr>TODOS := todos'\<rparr>
         \<and> snd res = Inr (TodoList (sort_key position (map snd todos')))
         \<and> sorted (map position (sort_key position (map snd todos')))
         \<and> mset (sort_key position (map snd todos')) = mset (map snd todos')
         \<and> map fst todos' = map fst (TODOS s)
         \<and> (distinct ids \<longrightarrow>
              (\<forall>i < length ids.
                 map_of todos' (ids ! i)
                 = map_option (\<lambda>t. t\<lparr>position := int i + 1\<rparr>) (map_of (TODOS s) (ids ! i))))
         \<and> (\<forall>i < length ids. ids ! i \<notin> set (drop (Suc i) ids) \<longrightarrow>
                map_of todos' (ids ! i)
                = map_option (\<lambda>t. t\<lparr>position := int i + 1\<rparr>) (map_of (TODOS s) (ids ! i)))
         \<and> (\<forall>j < length (unmentioned ids s).
                map_of todos' (unmentioned ids s ! j)
                = map_option (\<lambda>t. t\<lparr>position := int (length ids) + 1 + int j\<rparr>)
                    (map_of (TODOS s) (unmentioned ids s ! j)))"
proof -
  note res = reorder_success [OF assms]
  from assms(1) have keyed: "keyed (TODOS s)" and dist: "distinct (map fst (TODOS s))"
    by (simp_all add: wf_store_keyed)
  have ment: "map_of (reordered ids (TODOS s)) (ids ! i)
              = map_option (\<lambda>t. t\<lparr>position := int i + 1\<rparr>) (map_of (TODOS s) (ids ! i))"
    if "i < length ids" "ids ! i \<notin> set (drop (Suc i) ids)" for i
  proof -
    from that(1) have mem: "ids ! i \<in> set ids" by simp
    with assms(3) have "ids ! i \<in> fst ` set (TODOS s)" by blast
    then obtain t where t: "map_of (TODOS s) (ids ! i) = Some t"
      by (metis map_of_eq_None_iff not_Some_eq)
    from assigned_last [OF that, of 1] have "the (assigned 1 ids (ids ! i)) = int i + 1" by simp
    with map_of_reordered_mentioned [OF keyed dist t mem] t show ?thesis by simp
  qed
  have rest: "map_of (reordered ids (TODOS s)) (unmentioned ids s ! j)
              = map_option (\<lambda>t. t\<lparr>position := int (length ids) + 1 + int j\<rparr>)
                  (map_of (TODOS s) (unmentioned ids s ! j))"
    if "j < length (unmentioned ids s)" for j
    using that map_of_reordered_rest [OF keyed dist, of j ids] by (simp add: unmentioned_def)
  have ment_distinct: "map_of (reordered ids (TODOS s)) (ids ! i)
              = map_option (\<lambda>t. t\<lparr>position := int i + 1\<rparr>) (map_of (TODOS s) (ids ! i))"
    if "distinct ids" "i < length ids" for i
    using that by (intro ment nth_not_later)
  show ?thesis
    unfolding Let_def res using ment ment_distinct rest by (simp add: keys_reordered)
qed

lemma distinct_map_partition:
  "distinct (map g (filter P xs)) \<Longrightarrow> distinct (map g (filter (\<lambda>x. \<not> P x) xs)) \<Longrightarrow>
   g ` set (filter P xs) \<inter> g ` set (filter (\<lambda>x. \<not> P x) xs) = {} \<Longrightarrow>
   distinct (map g xs)"
proof (induction xs)
  case Nil
  then show ?case by simp
next
  case (Cons x xs)
  have fresh: "g y \<noteq> g x" if "y \<in> set xs" for y
  proof (cases "P x = P y")
    case True
    with that Cons.prems(1,2) show ?thesis
      by (cases "P x") (auto simp: image_iff)
  next
    case False
    let ?A = "g ` set (filter P (x # xs))"
    let ?B = "g ` set (filter (\<lambda>x. \<not> P x) (x # xs))"
    from False that have "(g x \<in> ?A \<and> g y \<in> ?B) \<or> (g x \<in> ?B \<and> g y \<in> ?A)"
      by (cases "P x") auto
    with Cons.prems(3) show ?thesis by (metis disjoint_iff)
  qed
  from fresh have "g x \<notin> g ` set xs" by force
  moreover from Cons.prems have "distinct (map g xs)"
    by (intro Cons.IH) (auto split: if_splits)
  ultimately show ?case by simp
qed

lemma mset_map_partition:
  "mset (map g xs) = mset (map g (filter P xs)) + mset (map g (filter (\<lambda>x. \<not> P x) xs))"
  by (induction xs) auto

lemma positions_mentioned:
  assumes "keyed todos"
  shows "map (position \<circ> snd) (filter (\<lambda>e. fst e \<in> set ids) (reordered ids todos))
         = map (\<lambda>k. the (assigned 1 ids k)) (filter (\<lambda>k. k \<in> set ids) (map fst todos))"
  unfolding reordered_mentioned [OF assms]
  by (simp add: filter_map comp_def case_prod_unfold)

lemma positions_rest:
  assumes "keyed todos"
  shows "map (position \<circ> snd) (filter (\<lambda>e. fst e \<notin> set ids) (reordered ids todos))
         = map (\<lambda>j. int (length ids) + 1 + int j)
             [0..<length (filter (\<lambda>e. fst e \<notin> set ids) todos)]"
  unfolding reordered_rest [OF assms]
  by (rule nth_equalityI) (auto simp: nth_enumerate_eq case_prod_unfold)

lemma reordered_positions_distinct:
  assumes "keyed todos" and "distinct (map fst todos)"
  shows "distinct (map (position \<circ> snd) (reordered ids todos))"
proof (rule distinct_map_partition [where P = "\<lambda>e. fst e \<in> set ids"])
  have inj: "inj_on (\<lambda>k. the (assigned 1 ids k)) (set ids)"
  proof (rule inj_onI)
    fix a b
    assume ab: "a \<in> set ids" "b \<in> set ids"
      and eq: "the (assigned 1 ids a) = the (assigned 1 ids b)"
    from ab obtain p q where pq: "assigned 1 ids a = Some p" "assigned 1 ids b = Some q"
      using assigned_None [of 1 ids] by (metis not_Some_eq)
    with eq have "p = q" by simp
    with pq assigned_range [of 1 ids a p] assigned_range [of 1 ids b q] show "a = b" by simp
  qed
  have "distinct (filter (\<lambda>k. k \<in> set ids) (map fst todos))"
    using assms(2) by simp
  moreover have "inj_on (\<lambda>k. the (assigned 1 ids k)) (set (filter (\<lambda>k. k \<in> set ids) (map fst todos)))"
    by (rule inj_on_subset [OF inj]) auto
  ultimately show "distinct (map (position \<circ> snd) (filter (\<lambda>e. fst e \<in> set ids) (reordered ids todos)))"
    unfolding positions_mentioned [OF assms(1)] by (simp add: distinct_map)
  show "distinct (map (position \<circ> snd) (filter (\<lambda>x. \<not> fst x \<in> set ids) (reordered ids todos)))"
    unfolding positions_rest [OF assms(1)] by (simp add: distinct_map inj_on_def)
  have low: "p \<le> int (length ids)"
    if "p \<in> set (map (position \<circ> snd) (filter (\<lambda>e. fst e \<in> set ids) (reordered ids todos)))" for p
  proof -
    from that obtain k where k: "k \<in> set ids" "p = the (assigned 1 ids k)"
      unfolding positions_mentioned [OF assms(1)] by auto
    then obtain q where "assigned 1 ids k = Some q"
      using assigned_None [of 1 ids k] by (metis not_Some_eq)
    with k assigned_range [of 1 ids k q] show ?thesis by simp
  qed
  have high: "int (length ids) < p"
    if "p \<in> set (map (position \<circ> snd) (filter (\<lambda>e. fst e \<notin> set ids) (reordered ids todos)))" for p
    using that unfolding positions_rest [OF assms(1)] by auto
  show "(position \<circ> snd) ` set (filter (\<lambda>e. fst e \<in> set ids) (reordered ids todos))
        \<inter> (position \<circ> snd) ` set (filter (\<lambda>x. \<not> fst x \<in> set ids) (reordered ids todos)) = {}"
  proof (rule ccontr)
    assume "\<not> ?thesis"
    then obtain p where
      "p \<in> set (map (position \<circ> snd) (filter (\<lambda>e. fst e \<in> set ids) (reordered ids todos)))"
      "p \<in> set (map (position \<circ> snd) (filter (\<lambda>e. fst e \<notin> set ids) (reordered ids todos)))"
      by auto
    with low [of p] high [of p] show False by simp
  qed
qed

lemma wf_store_ab: "wf_store store_ab"
  by (simp add: wf_store_def store_ab_def)

lemma wf_store_abc: "wf_store store_abc"
  by (simp add: wf_store_def store_abc_def)

theorem reorder_assigns_positions_witness:
  "wf_store store_abc
   \<and> set [3, 1] \<subseteq> fst ` set (TODOS store_abc)
   \<and> reorder_todos store_abc (JObj [(''order'', JList (map JInt [3, 1]))]) =
     (\<lparr>TODOS = [(1, \<lparr>id' = 1, title = JStr ''A'', is_done = False, priority = 1, position = 2\<rparr>),
               (2, \<lparr>id' = 2, title = JStr ''B'', is_done = True, priority = 5, position = 3\<rparr>),
               (3, \<lparr>id' = 3, title = JStr ''C'', is_done = False, priority = 1, position = 1\<rparr>)],
       NEXT_ID = 4\<rparr>,
      Inr (TodoList [\<lparr>id' = 3, title = JStr ''C'', is_done = False, priority = 1, position = 1\<rparr>,
                     \<lparr>id' = 1, title = JStr ''A'', is_done = False, priority = 1, position = 2\<rparr>,
                     \<lparr>id' = 2, title = JStr ''B'', is_done = True, priority = 5, position = 3\<rparr>]))"
  using reorder_assigns_positions [of store_abc "[(''order'', JList (map JInt [3, 1]))]" "[3, 1]"]
    wf_store_abc
  by (simp add: store_abc_def Let_def reorder_todos_def get_json_or_empty_def in_TODOS_def id_in_order_def)

section \<open>reorder: contiguity of the positions\<close>

lemma upt_shift: "map (\<lambda>i. 1 + int i) [0..<n] = [1..int n]"
proof (induction n)
  case 0
  then show ?case by simp
next
  case (Suc n)
  have "[1..int (Suc n)] = [1..int n] @ [int n + 1]"
    by (simp add: upto_rec2 add.commute)
  with Suc show ?case by simp
qed

lemma assigned_distinct:
  assumes "distinct ids"
  shows "map (\<lambda>k. the (assigned 1 ids k)) ids = map (\<lambda>i. 1 + int i) [0..<length ids]"
proof (rule nth_equalityI)
  show "length (map (\<lambda>k. the (assigned 1 ids k)) ids) = length (map (\<lambda>i. 1 + int i) [0..<length ids])"
    by simp
next
  fix i
  assume "i < length (map (\<lambda>k. the (assigned 1 ids k)) ids)"
  then have i: "i < length ids" by simp
  have "ids ! i \<notin> set (drop (Suc i) ids)"
  proof
    assume "ids ! i \<in> set (drop (Suc i) ids)"
    then obtain j where j: "j < length (drop (Suc i) ids)" "drop (Suc i) ids ! j = ids ! i"
      by (auto simp: in_set_conv_nth)
    then have "ids ! (Suc i + j) = ids ! i" "Suc i + j < length ids" by auto
    with assms i show False by (auto simp: nth_eq_iff_index_eq)
  qed
  from assigned_last [OF i this, of 1] i
  show "map (\<lambda>k. the (assigned 1 ids k)) ids ! i = map (\<lambda>i. 1 + int i) [0..<length ids] ! i"
    by simp
qed

lemma reordered_positions_mset:
  assumes "keyed todos" and "distinct (map fst todos)"
    and "distinct ids" and "set ids \<subseteq> fst ` set todos"
  shows "mset (map (position \<circ> snd) (reordered ids todos)) = mset [1..int (length todos)]"
proof -
  let ?P = "\<lambda>e :: int \<times> todo. fst e \<in> set ids"
  let ?r = "length (filter (\<lambda>e. fst e \<notin> set ids) todos)"
  have seteq: "set (filter (\<lambda>k. k \<in> set ids) (map fst todos)) = set ids"
    using assms(4) by auto
  have dk: "distinct (filter (\<lambda>k. k \<in> set ids) (map fst todos))"
    using assms(2) by simp
  have ms: "mset (filter (\<lambda>k. k \<in> set ids) (map fst todos)) = mset ids"
    by (rule set_eq_iff_mset_eq_distinct [THEN iffD1, OF dk assms(3) seteq])
  from ms have "length (filter (\<lambda>k. k \<in> set ids) (map fst todos)) = length ids"
    by (rule mset_eq_length)
  then have "length (filter ?P todos) = length ids"
    by (simp add: filter_map comp_def)
  moreover have "length (filter ?P todos) + ?r = length todos"
    by (rule sum_length_filter_compl)
  ultimately have len: "length todos = length ids + ?r" by simp
  have "mset (map (position \<circ> snd) (filter ?P (reordered ids todos)))
        = image_mset (\<lambda>k. the (assigned 1 ids k)) (mset (filter (\<lambda>k. k \<in> set ids) (map fst todos)))"
    unfolding positions_mentioned [OF assms(1)] by simp
  also have "\<dots> = mset (map (\<lambda>k. the (assigned 1 ids k)) ids)"
    unfolding ms by simp
  also have "\<dots> = mset (map (\<lambda>i. 1 + int i) [0..<length ids])"
    by (simp only: assigned_distinct [OF assms(3)])
  finally have m1: "mset (map (position \<circ> snd) (filter ?P (reordered ids todos)))
                    = mset (map (\<lambda>i. 1 + int i) [0..<length ids])" .
  have "map (\<lambda>j. int (length ids) + 1 + int j) [0..<?r]
        = map (\<lambda>i. 1 + int i) (map (\<lambda>j. length ids + j) [0..<?r])"
    by (simp add: comp_def add_ac)
  also have "map (\<lambda>j. length ids + j) [0..<?r] = [length ids..<length ids + ?r]"
    by (simp add: map_add_upt add.commute)
  finally have m2: "map (position \<circ> snd) (filter (\<lambda>e. \<not> ?P e) (reordered ids todos))
                    = map (\<lambda>i. 1 + int i) [length ids..<length ids + ?r]"
    using positions_rest [OF assms(1), of ids] by simp
  have "mset (map (position \<circ> snd) (reordered ids todos))
        = mset (map (\<lambda>i. 1 + int i) [0..<length ids])
          + mset (map (\<lambda>i. 1 + int i) [length ids..<length ids + ?r])"
    unfolding mset_map_partition [of "position \<circ> snd" "reordered ids todos" ?P] m1 m2 ..
  also have "\<dots> = mset (map (\<lambda>i. 1 + int i) ([0..<length ids] @ [length ids..<length ids + ?r]))"
    by simp
  also have "[0..<length ids] @ [length ids..<length ids + ?r] = [0..<length ids + ?r]"
    by (simp add: upt_add_eq_append [symmetric])
  finally show ?thesis by (simp only: len upt_shift)
qed

lemma sorted_positions_of_mset:
  assumes "mset (map position ts) = mset [1..n]"
  shows "map position (sort_key position ts) = [1..n]"
proof -
  have "sort (map position ts) = map position (sort_key position ts)"
    by (rule properties_for_sort) (simp_all add: sorted_sort_key)
  moreover have "sort (map position ts) = [1..n]"
  proof (rule properties_for_sort)
    show "mset [1..n] = mset (map position ts)" by (rule assms [symmetric])
    show "sorted [1..n]" by simp
  qed
  ultimately show ?thesis by simp
qed

text \<open>
  Claim C5, as the code has it. After a successful \<^verbatim>\<open>reorder_todos\<close> on a well-formed
  store no two todos share a position, whatever the order list; and when the order list
  names no id twice, the positions of the whole store are exactly \<open>1, 2, ..., n\<close> for the
  \<open>n\<close> todos of the store: contiguous, the ordered todos first and the unmentioned ones
  after them.
\<close>

theorem reorder_positions_contiguous:
  assumes "wf_store s"
    and "map_of kvs ''order'' = Some (JList (map JInt ids))"
    and "set ids \<subseteq> fst ` set (TODOS s)"
  shows "let res = reorder_todos s (JObj kvs); todos' = TODOS (fst res) in
           snd res = Inr (TodoList (sort_key position (map snd todos')))
         \<and> distinct (map position (map snd todos'))
         \<and> (distinct ids \<longrightarrow>
              map position (sort_key position (map snd todos')) = [1..int (length (TODOS s))])"
proof -
  note res = reorder_success [OF assms]
  from assms(1) have keyed: "keyed (TODOS s)" and dist: "distinct (map fst (TODOS s))"
    by (simp_all add: wf_store_keyed)
  have d: "distinct (map position (map snd (reordered ids (TODOS s))))"
    using reordered_positions_distinct [OF keyed dist, of ids] by (simp add: comp_def)
  have c: "map position (sort_key position (map snd (reordered ids (TODOS s))))
           = [1..int (length (TODOS s))]" if "distinct ids"
  proof (rule sorted_positions_of_mset)
    show "mset (map position (map snd (reordered ids (TODOS s)))) = mset [1..int (length (TODOS s))]"
      using reordered_positions_mset [OF keyed dist that assms(3)] by (simp add: comp_def)
  qed
  show ?thesis unfolding Let_def res using d c by simp
qed

theorem reorder_positions_contiguous_witness:
  "wf_store store_abc
   \<and> set [3, 1] \<subseteq> fst ` set (TODOS store_abc)
   \<and> distinct [3, 1 :: int]
   \<and> (let res = reorder_todos store_abc (JObj [(''order'', JList (map JInt [3, 1]))]);
           todos' = TODOS (fst res) in
           snd res = Inr (TodoList (sort_key position (map snd todos')))
         \<and> distinct (map position (map snd todos'))
         \<and> map position (sort_key position (map snd todos')) = [1..int (length (TODOS store_abc))])"
  using reorder_positions_contiguous [of store_abc "[(''order'', JList (map JInt [3, 1]))]" "[3, 1]"]
    wf_store_abc
  by (simp add: store_abc_def Let_def)

text \<open>
  With a repeated id the positions need not be contiguous: for the order \<open>[2, 1, 1]\<close> on
  the two todos of \<open>store_ab\<close>, todo 2 gets position 1 and todo 1 gets position 3 (its
  last index), and no todo has position 2.
\<close>

theorem reorder_repeated_ids_leave_gap:
  "reorder_todos store_ab (JObj [(''order'', JList [JInt 2, JInt 1, JInt 1])]) =
     (\<lparr>TODOS = [(1, \<lparr>id' = 1, title = JStr ''A'', is_done = False, priority = 1, position = 3\<rparr>),
               (2, \<lparr>id' = 2, title = JStr ''B'', is_done = False, priority = 1, position = 1\<rparr>)],
       NEXT_ID = 3\<rparr>,
      Inr (TodoList [\<lparr>id' = 2, title = JStr ''B'', is_done = False, priority = 1, position = 1\<rparr>,
                     \<lparr>id' = 1, title = JStr ''A'', is_done = False, priority = 1, position = 3\<rparr>]))"
  by (simp add: reorder_todos_def store_ab_def get_json_or_empty_def in_TODOS_def id_in_order_def)

section \<open>What each handler does to the store\<close>

lemma wf_store_alt:
  "wf_store s \<longleftrightarrow>
     distinct (map fst (TODOS s)) \<and> keyed (TODOS s) \<and> 1 \<le> NEXT_ID s \<and>
     (\<forall>k\<in>fst ` set (TODOS s). 1 \<le> k \<and> k < NEXT_ID s)"
  by (auto simp: wf_store_def keyed_def)






lemma keys_update_existing:
  "map_of al k = Some t \<Longrightarrow> map fst (AList.update k v al) = map fst al"
  by (auto simp: AList.update_keys dest!: map_of_SomeD intro: image_eqI [where x = "(k, t)"])


lemma update_fresh: "k \<notin> fst ` set al \<Longrightarrow> AList.update k v al = al @ [(k, v)]"
  by (induction al) auto

lemma make_todo_eq:
  "make_todo rt s a b c =
     (s\<lparr>NEXT_ID := NEXT_ID s + 1\<rparr>,
      case py_int rt c of
        Inl e \<Rightarrow> Inl e
      | Inr p \<Rightarrow> Inr \<lparr>id' = NEXT_ID s, title = a, is_done = truthy b, priority = p,
                      position = NEXT_ID s\<rparr>)"
  by (simp add: make_todo_def Let_def split: sum.split)


lemma replace_todo_shape:
  "(\<exists>e. replace_todo rt s todo_id body = (s, Inl e)) \<or>
   (\<exists>existing ttl d p. map_of (TODOS s) todo_id = Some existing \<and>
      replace_todo rt s todo_id body =
        (s\<lparr>TODOS := AList.update todo_id
              \<lparr>id' = todo_id, title = ttl, is_done = d, priority = p, position = position existing\<rparr>
              (TODOS s)\<rparr>,
         Inr (Todo \<lparr>id' = todo_id, title = ttl, is_done = d, priority = p, position = position existing\<rparr>)))"
  by (simp add: replace_todo_def get_todo_or_404_def Let_def split: sum.split option.split)

lemma put_todo_status_shape:
  "(\<exists>e. put_todo_status s todo_id body = (s, Inl e)) \<or>
   (\<exists>existing d. map_of (TODOS s) todo_id = Some existing \<and>
      put_todo_status s todo_id body =
        (s\<lparr>TODOS := AList.update todo_id (existing\<lparr>is_done := d\<rparr>) (TODOS s)\<rparr>,
         Inr (Todo (existing\<lparr>is_done := d\<rparr>))))"
  by (simp add: put_todo_status_def get_todo_or_404_def Let_def split: sum.split option.split)
     blast


lemma delete_todo_shape:
  "delete_todo s todo_id = (s, Inl NotFoundError) \<or>
   delete_todo s todo_id =
     (s\<lparr>TODOS := filter (\<lambda>(k, t). todo_id \<noteq> k) (TODOS s)\<rparr>, Inr (DeletedId todo_id))"
  by (simp add: delete_todo_def AList.delete_eq split: option.split)









lemma py_get_raises: "py_get v k d = Inl e \<Longrightarrow> e = AttributeError"
  by (cases v) auto

lemma py_int_raises: "py_int rt v = Inl e \<Longrightarrow> int_raises e"
  by (cases "(rt, v)" rule: py_int.cases) (auto simp: int_raises_def split: option.splits)

lemma not_int_raises_AttributeError: "\<not> int_raises AttributeError"
  by (simp add: int_raises_def)


lemma bulk_loop_shape:
  assumes "\<forall>k\<in>fst ` set (TODOS s). k < NEXT_ID s"
    and "bulk_loop rt items s created = (s', r)"
  shows "\<exists>new. TODOS s' = TODOS s @ map (\<lambda>t. (id' t, t)) new
           \<and> map id' new = map (\<lambda>j. NEXT_ID s + int j) [0..<length new]
           \<and> (\<forall>t\<in>set new. position t = id' t)
           \<and> (case r of
                 Inr cs \<Rightarrow> cs = created @ new
                          \<and> NEXT_ID s' = NEXT_ID s + int (length new)
                          \<and> list_all2 (made_from rt) new (filter has_title items)
               | Inl e \<Rightarrow> NEXT_ID s' = NEXT_ID s + int (length new)
                                       + (if int_raises e then 1 else 0))"
  using assms
proof (induction items arbitrary: s created)
  case Nil
  then show ?case by (intro exI [of _ "[]"]) auto
next
  case (Cons item items)
  show ?case
  proof (cases "py_get item ''title'' JNull")
    case (Inl e)
    from py_get_raises [OF Inl] have "\<not> int_raises e"
      by (simp add: not_int_raises_AttributeError)
    with Inl Cons.prems(2) show ?thesis by (intro exI [of _ "[]"]) auto
  next
    case (Inr ttl)
    then obtain kvs where item: "item = JObj kvs" by (cases item) auto
    from Inr have ttl: "item_get item ''title'' JNull = ttl" by (simp add: item_get_def)
    show ?thesis
    proof (cases "truthy ttl")
      case False
      with Inr Cons.prems(2) have run: "bulk_loop rt items s created = (s', r)" by simp
      have nt: "\<not> has_title item" using False ttl by (simp add: has_title_def)
      then have eq: "filter has_title (item # items) = filter has_title items" by simp
      show ?thesis unfolding eq by (rule Cons.IH [OF Cons.prems(1) run])
    next
      case True
      define d where "d = item_get item ''is_done'' (JBool False)"
      define pv where "pv = item_get item ''priority'' (JInt 1)"
      have gets: "py_get item ''is_done'' (JBool False) = Inr d"
        "py_get item ''priority'' (JInt 1) = Inr pv"
        by (simp_all add: d_def pv_def item_get_def item)
      show ?thesis
      proof (cases "py_int rt pv")
        case (Inl e)
        from py_int_raises [OF Inl] have "int_raises e" .
        with Inl True Inr gets Cons.prems(2) show ?thesis
          by (intro exI [of _ "[]"]) (auto simp: make_todo_eq)
      next
        case p: (Inr p)
        define t where "t = \<lparr>id' = NEXT_ID s, title = ttl, is_done = truthy d, priority = p,
                               position = NEXT_ID s\<rparr>"
        define s1 where "s1 = s\<lparr>NEXT_ID := NEXT_ID s + 1, TODOS := TODOS s @ [(NEXT_ID s, t)]\<rparr>"
        from Cons.prems(1) have "NEXT_ID s \<notin> fst ` set (TODOS s)" by auto
        then have upd: "AList.update (NEXT_ID s) t (TODOS s) = TODOS s @ [(NEXT_ID s, t)]"
          by (rule update_fresh)
        have idt: "id' t = NEXT_ID s" by (simp add: t_def)
        from True Inr gets p Cons.prems(2) have run: "bulk_loop rt items s1 (created @ [t]) = (s', r)"
          by (simp add: make_todo_eq t_def [symmetric] idt upd s1_def)
        have fresh1: "\<forall>k\<in>fst ` set (TODOS s1). k < NEXT_ID s1"
          using Cons.prems(1) by (auto simp: s1_def)
        from Cons.IH [OF fresh1 run] obtain new where new:
          "TODOS s' = TODOS s1 @ map (\<lambda>t. (id' t, t)) new"
          "map id' new = map (\<lambda>j. NEXT_ID s1 + int j) [0..<length new]"
          "\<forall>t\<in>set new. position t = id' t"
          "case r of
             Inr cs \<Rightarrow> cs = (created @ [t]) @ new
                      \<and> NEXT_ID s' = NEXT_ID s1 + int (length new)
                      \<and> list_all2 (made_from rt) new (filter has_title items)
           | Inl e \<Rightarrow> NEXT_ID s' = NEXT_ID s1 + int (length new)
                                   + (if int_raises e then 1 else 0)"
          by blast
        have mf: "made_from rt t item"
          using p by (simp add: made_from_def t_def ttl d_def pv_def)
        have ht: "has_title item" using True ttl by (simp add: has_title_def)
        have ids: "map id' (t # new) = map (\<lambda>j. NEXT_ID s + int j) [0..<length (t # new)]"
          using new(2) by (simp add: map_upt_Suc t_def s1_def add_ac del: upt_Suc)
        show ?thesis
        proof (intro exI [of _ "t # new"] conjI)
          show "TODOS s' = TODOS s @ map (\<lambda>t. (id' t, t)) (t # new)"
            using new(1) by (simp add: s1_def t_def)
          show "map id' (t # new) = map (\<lambda>j. NEXT_ID s + int j) [0..<length (t # new)]"
            by (rule ids)
          show "\<forall>t\<in>set (t # new). position t = id' t"
            using new(3) by (simp add: t_def)
          show "case r of
                  Inr cs \<Rightarrow> cs = created @ t # new
                           \<and> NEXT_ID s' = NEXT_ID s + int (length (t # new))
                           \<and> list_all2 (made_from rt) (t # new) (filter has_title (item # items))
                | Inl e \<Rightarrow> NEXT_ID s' = NEXT_ID s + int (length (t # new))
                                        + (if int_raises e then 1 else 0)"
            using new(4) mf ht by (auto simp: s1_def split: sum.splits)
        qed
      qed
    qed
  qed
qed

section \<open>Runs: the ids that are issued\<close>

lemma create_todos_bulk_shape:
  "(\<exists>e. create_todos_bulk rt s body = (s, Inl e)
        \<and> \<not> failed_creation (CreateTodosBulk body) (Inl e)) \<or>
   (\<exists>items s' r. bulk_loop rt items s [] = (s', r) \<and>
      py_get (get_json_or_empty body) ''items'' JNull = Inr (JList items) \<and>
      create_todos_bulk rt s body =
        (s', case r of Inl e \<Rightarrow> Inl (Uncaught e) | Inr created \<Rightarrow> Inr (Created created (length created))))"
proof (cases "py_get (get_json_or_empty body) ''items'' JNull")
  case (Inl e)
  from py_get_raises [OF Inl] Inl show ?thesis
    by (simp add: create_todos_bulk_def failed_creation_def not_int_raises_AttributeError)
next
  case (Inr v)
  show ?thesis
  proof (cases "\<exists>items. v = JList items")
    case True
    then obtain items where v: "v = JList items" by blast
    obtain s' r where loop: "bulk_loop rt items s [] = (s', r)"
      by (cases "bulk_loop rt items s []")
    with Inr v show ?thesis
      by (intro disjI2 exI [of _ items] exI [of _ s'] exI [of _ r])
         (simp add: create_todos_bulk_def split: sum.split)
  next
    case False
    with Inr show ?thesis
      by (cases v) (simp_all add: create_todos_bulk_def failed_creation_def)
  qed
qed
















section \<open>Updates of one todo\<close>

lemma patch_loop_fields:
  assumes "case map_of kvs ''priority'' of
             None \<Rightarrow> True
           | Some v \<Rightarrow> (case py_int rt v of Inr p \<Rightarrow> True | Inl e \<Rightarrow> False)"
  shows "snd (patch_loop rt fs (JObj kvs) t) = None
       \<and> id' (fst (patch_loop rt fs (JObj kvs) t)) = id' t
       \<and> position (fst (patch_loop rt fs (JObj kvs) t)) = position t
       \<and> title (fst (patch_loop rt fs (JObj kvs) t))
           = (if Title \<in> set fs
              then (case map_of kvs ''title'' of None \<Rightarrow> title t | Some v \<Rightarrow> v)
              else title t)
       \<and> is_done (fst (patch_loop rt fs (JObj kvs) t))
           = (if IsDone \<in> set fs
              then (case map_of kvs ''is_done'' of None \<Rightarrow> is_done t | Some v \<Rightarrow> truthy v)
              else is_done t)
       \<and> priority (fst (patch_loop rt fs (JObj kvs) t))
           = (if Priority \<in> set fs
              then (case map_of kvs ''priority'' of
                      None \<Rightarrow> priority t
                    | Some v \<Rightarrow> (case py_int rt v of Inr p \<Rightarrow> p | Inl e \<Rightarrow> priority t))
              else priority t)"
proof (induction fs arbitrary: t)
  case Nil
  then show ?case by simp
next
  case (Cons f fs)
  show ?case
  proof (cases f)
    case Title
    show ?thesis
    proof (cases "map_of kvs ''title''")
      case None
      with Title have "patch_loop rt (f # fs) (JObj kvs) t = patch_loop rt fs (JObj kvs) t"
        by (simp add: field_name_def)
      with Cons.IH [of t] Title None show ?thesis
        by (simp add: field_name_def split: option.split sum.split)
    next
      case (Some v)
      with Title have "patch_loop rt (f # fs) (JObj kvs) t
                       = patch_loop rt fs (JObj kvs) (t\<lparr>title := v\<rparr>)"
        by (simp add: field_name_def)
      with Cons.IH [of "t\<lparr>title := v\<rparr>"] Title Some show ?thesis
        by (simp add: field_name_def split: option.split sum.split)
    qed
  next
    case IsDone
    show ?thesis
    proof (cases "map_of kvs ''is_done''")
      case None
      with IsDone have "patch_loop rt (f # fs) (JObj kvs) t = patch_loop rt fs (JObj kvs) t"
        by (simp add: field_name_def)
      with Cons.IH [of t] IsDone None show ?thesis
        by (simp add: field_name_def split: option.split sum.split)
    next
      case (Some v)
      with IsDone have "patch_loop rt (f # fs) (JObj kvs) t
                        = patch_loop rt fs (JObj kvs) (t\<lparr>is_done := truthy v\<rparr>)"
        by (simp add: field_name_def)
      with Cons.IH [of "t\<lparr>is_done := truthy v\<rparr>"] IsDone Some show ?thesis
        by (simp add: field_name_def split: option.split sum.split)
    qed
  next
    case Priority
    show ?thesis
    proof (cases "map_of kvs ''priority''")
      case None
      with Priority have "patch_loop rt (f # fs) (JObj kvs) t = patch_loop rt fs (JObj kvs) t"
        by (simp add: field_name_def)
      with Cons.IH [of t] Priority None show ?thesis
        by (simp add: field_name_def split: option.split sum.split)
    next
      case (Some v)
      with assms obtain p where p: "py_int rt v = Inr p" by (auto split: sum.splits)
      with Some Priority have "patch_loop rt (f # fs) (JObj kvs) t
                               = patch_loop rt fs (JObj kvs) (t\<lparr>priority := p\<rparr>)"
        by (simp add: field_name_def)
      with Cons.IH [of "t\<lparr>priority := p\<rparr>"] Priority Some p show ?thesis
        by (simp add: field_name_def split: option.split sum.split)
    qed
  qed
qed

lemma py_any_in_obj:
  "py_any_in (map field_name fs) (JObj kvs) = Inr (\<exists>f\<in>set fs. map_of kvs (field_name f) \<noteq> None)"
  by (induction fs) auto

lemma patch_loop_patched:
  assumes "set_iteration_order fs" and "patchable rt kvs"
  shows "patch_loop rt fs (JObj kvs) old = (patched rt kvs old, None)"
proof -
  from assms(2) have ok: "case map_of kvs ''priority'' of
             None \<Rightarrow> True
           | Some v \<Rightarrow> (case py_int rt v of Inr p \<Rightarrow> True | Inl e \<Rightarrow> False)"
    by (simp add: patchable_def)
  from assms(1) have mem: "Title \<in> set fs" "IsDone \<in> set fs" "Priority \<in> set fs"
    by (simp_all add: set_iteration_order_def)
  obtain t' e where pl: "patch_loop rt fs (JObj kvs) old = (t', e)"
    by (cases "patch_loop rt fs (JObj kvs) old")
  from patch_loop_fields [OF ok, of fs old] have
    t': "patch_loop rt fs (JObj kvs) old = (t', None)"
    and fields: "id' t' = id' old" "position t' = position old"
      "title t' = (case map_of kvs ''title'' of None \<Rightarrow> title old | Some v \<Rightarrow> v)"
      "is_done t' = (case map_of kvs ''is_done'' of None \<Rightarrow> is_done old | Some v \<Rightarrow> truthy v)"
      "priority t' = (case map_of kvs ''priority'' of
                        None \<Rightarrow> priority old
                      | Some v \<Rightarrow> (case py_int rt v of Inr p \<Rightarrow> p | Inl e \<Rightarrow> priority old))"
    unfolding pl using mem by simp_all
  have "t' = patched rt kvs old"
    by (rule todo.equality) (simp_all add: patched_def fields)
  with t' show ?thesis by simp
qed

text \<open>
  Claim C6. Let \<open>old\<close> be the todo stored under an existing id of a well-formed store.
  A \<^verbatim>\<open>replace_todo\<close> whose body supplies the three fields, with a priority that
  \<^verbatim>\<open>int()\<close> accepts, stores and returns \<open>old\<close> with title, is_done and priority
  overwritten: id and position are those of \<open>old\<close>. A \<^verbatim>\<open>put_todo_status\<close> whose body
  supplies \<^verbatim>\<open>is_done\<close> stores and returns \<open>old\<close> with only is_done changed. A
  \<^verbatim>\<open>patch_todo\<close> with a patchable body stores and returns \<open>patched rt kvs old\<close>, in
  whatever order the interpreter iterates the set of allowed fields: only the supplied
  fields change. In each case the store is updated at that key only: the keys and their
  order stay, and so does the todo under every other key.
\<close>

theorem updates_keep_unsupplied_fields:
  assumes "wf_store s" and "map_of (TODOS s) todo_id = Some old"
  shows "(\<forall>ttl d pv p.
            map_of kvs ''title'' = Some ttl \<longrightarrow> map_of kvs ''is_done'' = Some d \<longrightarrow>
            map_of kvs ''priority'' = Some pv \<longrightarrow> py_int rt pv = Inr p \<longrightarrow>
            replace_todo rt s todo_id (JObj kvs) =
              (s\<lparr>TODOS := AList.update todo_id
                    (old\<lparr>title := ttl, is_done := truthy d, priority := p\<rparr>) (TODOS s)\<rparr>,
               Inr (Todo (old\<lparr>title := ttl, is_done := truthy d, priority := p\<rparr>))))
       \<and> (\<forall>d. map_of kvs ''is_done'' = Some d \<longrightarrow>
            put_todo_status s todo_id (JObj kvs) =
              (s\<lparr>TODOS := AList.update todo_id (old\<lparr>is_done := truthy d\<rparr>) (TODOS s)\<rparr>,
               Inr (Todo (old\<lparr>is_done := truthy d\<rparr>))))
       \<and> (set_iteration_order (allowed_fields rt) \<longrightarrow> patchable rt kvs \<longrightarrow>
            patch_todo rt s todo_id (JObj kvs) =
              (s\<lparr>TODOS := AList.update todo_id (patched rt kvs old) (TODOS s)\<rparr>,
               Inr (Todo (patched rt kvs old))))
       \<and> (\<forall>new. map fst (AList.update todo_id new (TODOS s)) = map fst (TODOS s)
              \<and> (\<forall>k. k \<noteq> todo_id \<longrightarrow>
                    map_of (AList.update todo_id new (TODOS s)) k = map_of (TODOS s) k))"
proof -
  from assms have idold: "id' old = todo_id"
    by (auto simp: wf_store_def dest!: map_of_SomeD)
  have nonempty: "get_json_or_empty (JObj kvs) = JObj kvs" if "map_of kvs k = Some v" for k v
  proof -
    from that have "kvs \<noteq> []" by auto
    then show ?thesis by (simp add: get_json_or_empty_def)
  qed
  have replace: "replace_todo rt s todo_id (JObj kvs) =
              (s\<lparr>TODOS := AList.update todo_id
                    (old\<lparr>title := ttl, is_done := truthy d, priority := p\<rparr>) (TODOS s)\<rparr>,
               Inr (Todo (old\<lparr>title := ttl, is_done := truthy d, priority := p\<rparr>)))"
    if "map_of kvs ''title'' = Some ttl" "map_of kvs ''is_done'' = Some d"
      "map_of kvs ''priority'' = Some pv" "py_int rt pv = Inr p" for ttl d pv p
  proof -
    have "\<lparr>id' = todo_id, title = ttl, is_done = truthy d, priority = p, position = position old\<rparr>
          = old\<lparr>title := ttl, is_done := truthy d, priority := p\<rparr>"
      by (rule todo.equality) (simp_all add: idold)
    with that assms(2) nonempty [OF that(1)] show ?thesis
      by (simp add: replace_todo_def get_todo_or_404_def required_fields_def Let_def)
  qed
  have status: "put_todo_status s todo_id (JObj kvs) =
              (s\<lparr>TODOS := AList.update todo_id (old\<lparr>is_done := truthy d\<rparr>) (TODOS s)\<rparr>,
               Inr (Todo (old\<lparr>is_done := truthy d\<rparr>)))"
    if "map_of kvs ''is_done'' = Some d" for d
    using that assms(2) nonempty [OF that]
    by (simp add: put_todo_status_def get_todo_or_404_def Let_def)
  have patch: "patch_todo rt s todo_id (JObj kvs) =
              (s\<lparr>TODOS := AList.update todo_id (patched rt kvs old) (TODOS s)\<rparr>,
               Inr (Todo (patched rt kvs old)))"
    if order: "set_iteration_order (allowed_fields rt)" and ok: "patchable rt kvs"
  proof -
    from ok obtain k v where "map_of kvs k = Some v" by (auto simp: patchable_def)
    then have data: "get_json_or_empty (JObj kvs) = JObj kvs" by (rule nonempty)
    from order have "\<exists>f\<in>set (allowed_fields rt). map_of kvs (field_name f) \<noteq> None"
      using ok by (auto simp: set_iteration_order_def patchable_def field_name_def)
    then have "py_any_in (map field_name (allowed_fields rt)) (JObj kvs) = Inr True"
      by (simp add: py_any_in_obj)
    with assms(2) data patch_loop_patched [OF order ok, of old] show ?thesis
      by (simp add: patch_todo_def get_todo_or_404_def Let_def)
  qed
  have frame: "map fst (AList.update todo_id new (TODOS s)) = map fst (TODOS s)
              \<and> (\<forall>k. k \<noteq> todo_id \<longrightarrow>
                    map_of (AList.update todo_id new (TODOS s)) k = map_of (TODOS s) k)" for new
    using keys_update_existing [OF assms(2)] by (simp add: AList.update_conv')
  from replace status patch frame show ?thesis by blast
qed

lemma set_iteration_order_example: "set_iteration_order (allowed_fields rt_example)"
  by (auto simp: set_iteration_order_def rt_example_def)

theorem updates_keep_unsupplied_fields_witness:
  "wf_store store_abc
   \<and> map_of (TODOS store_abc) 2
       = Some \<lparr>id' = 2, title = JStr ''B'', is_done = True, priority = 5, position = 2\<rparr>
   \<and> replace_todo rt_example store_abc 2
         (JObj [(''title'', JStr ''Z''), (''is_done'', JInt 0), (''priority'', JStr ''7'')])
       = (store_abc\<lparr>TODOS := AList.update 2
              \<lparr>id' = 2, title = JStr ''Z'', is_done = False, priority = 7, position = 2\<rparr>
              (TODOS store_abc)\<rparr>,
          Inr (Todo \<lparr>id' = 2, title = JStr ''Z'', is_done = False, priority = 7, position = 2\<rparr>))
   \<and> put_todo_status store_abc 2
         (JObj [(''title'', JStr ''Z''), (''is_done'', JInt 0), (''priority'', JStr ''7'')])
       = (store_abc\<lparr>TODOS := AList.update 2
              \<lparr>id' = 2, title = JStr ''B'', is_done = False, priority = 5, position = 2\<rparr>
              (TODOS store_abc)\<rparr>,
          Inr (Todo \<lparr>id' = 2, title = JStr ''B'', is_done = False, priority = 5, position = 2\<rparr>))
   \<and> set_iteration_order (allowed_fields rt_example)
   \<and> patchable rt_example [(''priority'', JStr ''7'')]
   \<and> patch_todo rt_example store_abc 2 (JObj [(''priority'', JStr ''7'')])
       = (store_abc\<lparr>TODOS := AList.update 2
              \<lparr>id' = 2, title = JStr ''B'', is_done = True, priority = 7, position = 2\<rparr>
              (TODOS store_abc)\<rparr>,
          Inr (Todo \<lparr>id' = 2, title = JStr ''B'', is_done = True, priority = 7, position = 2\<rparr>))"
proof -
  let ?old = "\<lparr>id' = 2, title = JStr ''B'', is_done = True, priority = 5, position = 2\<rparr>"
  have old: "map_of (TODOS store_abc) 2 = Some ?old"
    by (simp add: store_abc_def)
  have p: "patchable rt_example [(''priority'', JStr ''7'')]"
    by (simp add: patchable_def rt_example_def)
  note full = updates_keep_unsupplied_fields [OF wf_store_abc old,
      of "[(''title'', JStr ''Z''), (''is_done'', JInt 0), (''priority'', JStr ''7'')]" rt_example]
  note part = updates_keep_unsupplied_fields [OF wf_store_abc old,
      of "[(''priority'', JStr ''7'')]" rt_example]
  have seven: "py_int rt_example (JStr ''7'') = Inr 7" by (simp add: rt_example_def)
  from full seven have
    "replace_todo rt_example store_abc 2
         (JObj [(''title'', JStr ''Z''), (''is_done'', JInt 0), (''priority'', JStr ''7'')])
       = (store_abc\<lparr>TODOS := AList.update 2
              (?old\<lparr>title := JStr ''Z'', is_done := truthy (JInt 0), priority := 7\<rparr>)
              (TODOS store_abc)\<rparr>,
          Inr (Todo (?old\<lparr>title := JStr ''Z'', is_done := truthy (JInt 0), priority := 7\<rparr>)))"
    by simp
  moreover from full have
    "put_todo_status store_abc 2
         (JObj [(''title'', JStr ''Z''), (''is_done'', JInt 0), (''priority'', JStr ''7'')])
       = (store_abc\<lparr>TODOS := AList.update 2 (?old\<lparr>is_done := truthy (JInt 0)\<rparr>)
              (TODOS store_abc)\<rparr>,
          Inr (Todo (?old\<lparr>is_done := truthy (JInt 0)\<rparr>)))"
    by simp
  moreover from part p set_iteration_order_example have
    "patch_todo rt_example store_abc 2 (JObj [(''priority'', JStr ''7'')])
       = (store_abc\<lparr>TODOS := AList.update 2 (patched rt_example [(''priority'', JStr ''7'')] ?old)
              (TODOS store_abc)\<rparr>,
          Inr (Todo (patched rt_example [(''priority'', JStr ''7'')] ?old)))"
    by simp
  moreover have "patched rt_example [(''priority'', JStr ''7'')] ?old
                 = \<lparr>id' = 2, title = JStr ''B'', is_done = True, priority = 7, position = 2\<rparr>"
    by (simp add: patched_def rt_example_def)
  ultimately show ?thesis
    using wf_store_abc old p set_iteration_order_example by simp
qed

text \<open>
  Failures of the single-entity handlers. \<^verbatim>\<open>replace_todo\<close>, \<^verbatim>\<open>put_todo_status\<close> and
  \<^verbatim>\<open>delete_todo\<close> leave the store as it was whenever they fail, and so does
  \<^verbatim>\<open>patch_todo\<close> when it answers 404 or 400.
\<close>

lemma patch_todo_cases:
  "fst (patch_todo rt s todo_id body) = s
   \<or> (\<exists>x. snd (patch_todo rt s todo_id body) = Inl (Uncaught x))
   \<or> (\<exists>t. snd (patch_todo rt s todo_id body) = Inr t)"
  by (simp add: patch_todo_def get_todo_or_404_def Let_def split: sum.split option.split prod.split)

lemma single_entity_failures:
  "(snd (replace_todo rt s todo_id body) = Inl e \<longrightarrow> fst (replace_todo rt s todo_id body) = s)
   \<and> (snd (put_todo_status s todo_id body) = Inl e \<longrightarrow> fst (put_todo_status s todo_id body) = s)
   \<and> (snd (delete_todo s todo_id) = Inl e \<longrightarrow> fst (delete_todo s todo_id) = s)
   \<and> (snd (patch_todo rt s todo_id body) = Inl NotFoundError \<longrightarrow>
        fst (patch_todo rt s todo_id body) = s)
   \<and> (snd (patch_todo rt s todo_id body) = Inl (ValidationError v) \<longrightarrow>
        fst (patch_todo rt s todo_id body) = s)"
  using replace_todo_shape [of rt s todo_id body] put_todo_status_shape [of s todo_id body]
    delete_todo_shape [of s todo_id] patch_todo_cases [of rt s todo_id body]
  by auto

text \<open>
  Claim C4 does not hold for \<^verbatim>\<open>patch_todo\<close>. The handler assigns to the stored dict field
  by field, and \<^verbatim>\<open>int(data["priority"])\<close> can raise after other fields have been
  assigned. Here the interpreter iterates the allowed fields in the order title,
  is_done, priority and the body carries \<^verbatim>\<open>"priority": null\<close>: the request fails with
  the \<^verbatim>\<open>TypeError\<close> of \<^verbatim>\<open>int(None)\<close>, and todo 1 keeps the new title and the new
  is_done. (\<^verbatim>\<open>replace_todo\<close> coerces all three values before it stores anything.)
\<close>

theorem patch_todo_partial_update:
  "patch_todo rt_example store_ab 1
     (JObj [(''title'', JStr ''X''), (''is_done'', JBool True), (''priority'', JNull)])
   = (\<lparr>TODOS = [(1, \<lparr>id' = 1, title = JStr ''X'', is_done = True, priority = 1, position = 1\<rparr>),
               (2, \<lparr>id' = 2, title = JStr ''B'', is_done = False, priority = 1, position = 2\<rparr>)],
       NEXT_ID = 3\<rparr>,
      Inl (Uncaught TypeError))"
  by (simp add: patch_todo_def get_todo_or_404_def get_json_or_empty_def store_ab_def
      rt_example_def field_name_def)

text \<open>
  The same request fails half-applied under every iteration order that does not start
  with priority.
\<close>

lemma patch_todo_partial_update_orders:
  assumes "allowed_fields rt \<in> {[Title, IsDone, Priority], [Title, Priority, IsDone],
                                [IsDone, Title, Priority], [IsDone, Priority, Title]}"
  shows "snd (patch_todo rt store_ab 1
           (JObj [(''title'', JStr ''X''), (''is_done'', JBool True), (''priority'', JNull)]))
         = Inl (Uncaught TypeError)
       \<and> fst (patch_todo rt store_ab 1
           (JObj [(''title'', JStr ''X''), (''is_done'', JBool True), (''priority'', JNull)]))
         \<noteq> store_ab"
  using assms
  by (auto simp: patch_todo_def get_todo_or_404_def get_json_or_empty_def store_ab_def field_name_def)

section \<open>Creation\<close>

text \<open>
  Skipping is silent: removing the untitled items from the list changes neither the store
  nor the answer of the loop, whatever the other items are.
\<close>

lemma bulk_loop_skips:
  "bulk_loop rt (filter (\<lambda>item. \<not> untitled item) items) s created = bulk_loop rt items s created"
proof (induction items arbitrary: s created)
  case Nil
  then show ?case by simp
next
  case (Cons item items)
  show ?case
  proof (cases "untitled item")
    case True
    then obtain kvs where item: "item = JObj kvs" by (cases item) (simp_all add: untitled_def)
    with True have "\<not> truthy (case map_of kvs ''title'' of None \<Rightarrow> JNull | Some v \<Rightarrow> v)"
      by (simp add: untitled_def has_title_def item_get_def)
    with True item Cons.IH show ?thesis by simp
  next
    case False
    with Cons.IH show ?thesis by (simp split: sum.split prod.split)
  qed
qed

lemma bulk_loop_total:
  assumes "\<forall>item\<in>set items. creatable rt item"
  shows "\<exists>cs. snd (bulk_loop rt items s created) = Inr cs"
  using assms
proof (induction items arbitrary: s created)
  case Nil
  then show ?case by simp
next
  case (Cons item items)
  from Cons.prems have c: "creatable rt item" and rest: "\<forall>item\<in>set items. creatable rt item"
    by simp_all
  from c obtain kvs where item: "item = JObj kvs" by (cases item) (simp_all add: creatable_def)
  show ?case
  proof (cases "has_title item")
    case False
    with item Cons.IH [OF rest] show ?thesis
      by (simp add: has_title_def item_get_def)
  next
    case True
    with c item obtain p where "py_int rt (item_get item ''priority'' (JInt 1)) = Inr p"
      by (auto simp: creatable_def split: sum.splits)
    with True item Cons.IH [OF rest] show ?thesis
      by (simp add: has_title_def item_get_def make_todo_eq)
  qed
qed

lemma bulk_loop_made_from:
  assumes "\<forall>k\<in>fst ` set (TODOS s). k < NEXT_ID s"
    and "bulk_loop rt items s created = (s', r)"
  shows "\<exists>new. TODOS s' = TODOS s @ map (\<lambda>t. (id' t, t)) new
           \<and> list_all2 (made_from rt) new (take (length new) (filter has_title items))"
  using assms
proof (induction items arbitrary: s created)
  case Nil
  then show ?case by (intro exI [of _ "[]"]) auto
next
  case (Cons item items)
  show ?case
  proof (cases "py_get item ''title'' JNull")
    case (Inl e)
    with Cons.prems(2) show ?thesis by (intro exI [of _ "[]"]) auto
  next
    case (Inr ttl)
    then obtain kvs where item: "item = JObj kvs" by (cases item) auto
    from Inr have ttl: "item_get item ''title'' JNull = ttl" by (simp add: item_get_def)
    show ?thesis
    proof (cases "truthy ttl")
      case False
      with Inr Cons.prems(2) have run: "bulk_loop rt items s created = (s', r)" by simp
      have nt: "\<not> has_title item" using False ttl by (simp add: has_title_def)
      then have eq: "filter has_title (item # items) = filter has_title items" by simp
      show ?thesis unfolding eq by (rule Cons.IH [OF Cons.prems(1) run])
    next
      case True
      define d where "d = item_get item ''is_done'' (JBool False)"
      define pv where "pv = item_get item ''priority'' (JInt 1)"
      have gets: "py_get item ''is_done'' (JBool False) = Inr d"
        "py_get item ''priority'' (JInt 1) = Inr pv"
        by (simp_all add: d_def pv_def item_get_def item)
      show ?thesis
      proof (cases "py_int rt pv")
        case (Inl e)
        with True Inr gets Cons.prems(2) show ?thesis
          by (intro exI [of _ "[]"]) (auto simp: make_todo_eq)
      next
        case p: (Inr p)
        define t where "t = \<lparr>id' = NEXT_ID s, title = ttl, is_done = truthy d, priority = p,
                               position = NEXT_ID s\<rparr>"
        define s1 where "s1 = s\<lparr>NEXT_ID := NEXT_ID s + 1, TODOS := TODOS s @ [(NEXT_ID s, t)]\<rparr>"
        from Cons.prems(1) have "NEXT_ID s \<notin> fst ` set (TODOS s)" by auto
        then have upd: "AList.update (NEXT_ID s) t (TODOS s) = TODOS s @ [(NEXT_ID s, t)]"
          by (rule update_fresh)
        have idt: "id' t = NEXT_ID s" by (simp add: t_def)
        from True Inr gets p Cons.prems(2) have run: "bulk_loop rt items s1 (created @ [t]) = (s', r)"
          by (simp add: make_todo_eq t_def [symmetric] idt upd s1_def)
        have fresh1: "\<forall>k\<in>fst ` set (TODOS s1). k < NEXT_ID s1"
          using Cons.prems(1) by (auto simp: s1_def)
        from Cons.IH [OF fresh1 run] obtain new where new:
          "TODOS s' = TODOS s1 @ map (\<lambda>t. (id' t, t)) new"
          "list_all2 (made_from rt) new (take (length new) (filter has_title items))"
          by blast
        have mf: "made_from rt t item"
          using p by (simp add: made_from_def t_def ttl d_def pv_def)
        have ht: "has_title item" using True ttl by (simp add: has_title_def)
        show ?thesis
        proof (intro exI [of _ "t # new"] conjI)
          show "TODOS s' = TODOS s @ map (\<lambda>t. (id' t, t)) (t # new)"
            using new(1) by (simp add: s1_def idt)
          show "list_all2 (made_from rt) (t # new)
                  (take (length (t # new)) (filter has_title (item # items)))"
            using new(2) mf ht by simp
        qed
      qed
    qed
  qed
qed

lemma created_count:
  "snd (create_todos_bulk rt s body) = Inr (Created cs n) \<Longrightarrow> n = length cs"
proof -
  assume res: "snd (create_todos_bulk rt s body) = Inr (Created cs n)"
  from create_todos_bulk_shape [of rt s body] show "n = length cs"
  proof (elim disjE exE conjE)
    fix e assume "create_todos_bulk rt s body = (s, Inl e)"
    with res show ?thesis by simp
  next
    fix items s' r
    assume "create_todos_bulk rt s body =
              (s', case r of Inl e \<Rightarrow> Inl (Uncaught e)
                   | Inr created \<Rightarrow> Inr (Created created (length created)))"
    with res show ?thesis by (cases r) auto
  qed
qed

text \<open>
  Claim C7, as the code has it. For a well-formed store and a list of items that are
  all objects and whose priority, where the item has a title, is accepted by
  \<^verbatim>\<open>int()\<close>: \<^verbatim>\<open>create_todos_bulk\<close> succeeds; the items without a truthy title are skipped;
  the others are created one by one in input order (the created todos correspond,
  position by position, to the titled items), with the next ids of the counter; they
  are appended to the store; and the count of the answer is the length of the list of
  created todos.
\<close>

theorem bulk_create_skips_untitled:
  assumes "wf_store s"
    and "map_of kvs ''items'' = Some (JList items)"
    and "\<forall>item\<in>set items. creatable rt item"
  shows "\<exists>created.
           create_todos_bulk rt s (JObj kvs) =
             (s\<lparr>TODOS := TODOS s @ map (\<lambda>t. (id' t, t)) created,
                NEXT_ID := NEXT_ID s + int (length created)\<rparr>,
              Inr (Created created (length created)))
         \<and> list_all2 (made_from rt) created (filter has_title items)
         \<and> length created = length (filter has_title items)
         \<and> map id' created = map (\<lambda>j. NEXT_ID s + int j) [0..<length created]
         \<and> (\<forall>t\<in>set created. position t = id' t)"
proof -
  from assms(2) have "kvs \<noteq> []" by auto
  then have data: "get_json_or_empty (JObj kvs) = JObj kvs"
    by (simp add: get_json_or_empty_def)
  obtain s' r where loop: "bulk_loop rt items s [] = (s', r)"
    by (cases "bulk_loop rt items s []")
  from bulk_loop_total [OF assms(3), of s "[]"] loop obtain cs where r: "r = Inr cs" by auto
  from assms(1) have "\<forall>k\<in>fst ` set (TODOS s). k < NEXT_ID s" by (simp add: wf_store_alt)
  from bulk_loop_shape [OF this loop] r obtain new where new:
    "TODOS s' = TODOS s @ map (\<lambda>t. (id' t, t)) new"
    "map id' new = map (\<lambda>j. NEXT_ID s + int j) [0..<length new]"
    "\<forall>t\<in>set new. position t = id' t"
    "cs = new" "NEXT_ID s' = NEXT_ID s + int (length new)"
    "list_all2 (made_from rt) new (filter has_title items)"
    by auto
  have "s' = s\<lparr>TODOS := TODOS s @ map (\<lambda>t. (id' t, t)) new,
               NEXT_ID := NEXT_ID s + int (length new)\<rparr>"
    by (rule store.equality) (simp_all add: new)
  moreover from new(6) have "length new = length (filter has_title items)"
    by (rule list_all2_lengthD)
  ultimately show ?thesis
    using loop r new data assms(2)
    by (intro exI [of _ new]) (simp add: create_todos_bulk_def)
qed

text \<open>
  Without the condition on the priorities the batch can fail: \<^verbatim>\<open>int(None)\<close> raises for
  the second item, so the request ends with an uncaught \<^verbatim>\<open>TypeError\<close> after the first
  item has been created, the counter has been incremented twice, and the third item,
  which is valid, is never created.
\<close>

theorem bulk_create_fails_on_priority:
  "create_todos_bulk rt_example init_store
     (JObj [(''items'', JList [JObj [(''title'', JStr ''A'')],
                               JObj [(''title'', JStr ''B''), (''priority'', JNull)],
                               JObj [(''title'', JStr ''C'')]])])
   = (\<lparr>TODOS = [(1, \<lparr>id' = 1, title = JStr ''A'', is_done = False, priority = 1, position = 1\<rparr>)],
       NEXT_ID = 3\<rparr>,
      Inl (Uncaught TypeError))"
  by (simp add: create_todos_bulk_def get_json_or_empty_def init_store_def make_todo_def)

lemma bulk_example:
  "create_todos_bulk rt_example store_ab (JObj [(''items'', JList items_example)]) =
     (\<lparr>TODOS = [(1, \<lparr>id' = 1, title = JStr ''A'', is_done = False, priority = 1, position = 1\<rparr>),
               (2, \<lparr>id' = 2, title = JStr ''B'', is_done = False, priority = 1, position = 2\<rparr>),
               (3, \<lparr>id' = 3, title = JStr ''C'', is_done = True, priority = 1, position = 3\<rparr>),
               (4, \<lparr>id' = 4, title = JStr ''D'', is_done = False, priority = 7, position = 4\<rparr>)],
       NEXT_ID = 5\<rparr>,
      Inr (Created [\<lparr>id' = 3, title = JStr ''C'', is_done = True, priority = 1, position = 3\<rparr>,
                    \<lparr>id' = 4, title = JStr ''D'', is_done = False, priority = 7, position = 4\<rparr>] 2))"
  by (simp add: create_todos_bulk_def get_json_or_empty_def store_ab_def items_example_def
      rt_example_def make_todo_def)

lemma creatable_example: "list_all (creatable rt_example) items_example"
  by (simp add: items_example_def creatable_def has_title_def item_get_def rt_example_def)

theorem bulk_create_skips_untitled_witness:
  "wf_store store_ab
   \<and> list_all (creatable rt_example) items_example
   \<and> filter has_title items_example
       = [JObj [(''title'', JStr ''C''), (''is_done'', JStr ''false'')],
          JObj [(''title'', JStr ''D''), (''priority'', JStr ''7'')]]
   \<and> (\<exists>created.
         create_todos_bulk rt_example store_ab (JObj [(''items'', JList items_example)]) =
           (store_ab\<lparr>TODOS := TODOS store_ab @ map (\<lambda>t. (id' t, t)) created,
                     NEXT_ID := NEXT_ID store_ab + int (length created)\<rparr>,
            Inr (Created created (length created)))
       \<and> list_all2 (made_from rt_example) created (filter has_title items_example)
       \<and> length created = 2
       \<and> map id' created = [3, 4])"
proof -
  have ball: "\<forall>item\<in>set items_example. creatable rt_example item"
    using creatable_example by (simp add: list_all_iff)
  have titled: "filter has_title items_example
       = [JObj [(''title'', JStr ''C''), (''is_done'', JStr ''false'')],
          JObj [(''title'', JStr ''D''), (''priority'', JStr ''7'')]]"
    by (simp add: items_example_def has_title_def item_get_def)
  from bulk_create_skips_untitled [OF wf_store_ab _ ball, of "[(''items'', JList items_example)]"]
  obtain created where c:
    "create_todos_bulk rt_example store_ab (JObj [(''items'', JList items_example)]) =
           (store_ab\<lparr>TODOS := TODOS store_ab @ map (\<lambda>t. (id' t, t)) created,
                     NEXT_ID := NEXT_ID store_ab + int (length created)\<rparr>,
            Inr (Created created (length created)))"
    "list_all2 (made_from rt_example) created (filter has_title items_example)"
    "length created = length (filter has_title items_example)"
    "map id' created = map (\<lambda>j. NEXT_ID store_ab + int j) [0..<length created]"
    by auto
  from c(3) have len: "length created = 2" by (simp add: titled)
  have two: "[0..<2] = [0, 1]" by (simp add: numeral_2_eq_2)
  have ids: "map id' created = [3, 4]"
    unfolding c(4) len two by (simp add: store_ab_def)
  have "\<exists>created.
         create_todos_bulk rt_example store_ab (JObj [(''items'', JList items_example)]) =
           (store_ab\<lparr>TODOS := TODOS store_ab @ map (\<lambda>t. (id' t, t)) created,
                     NEXT_ID := NEXT_ID store_ab + int (length created)\<rparr>,
            Inr (Created created (length created)))
       \<and> list_all2 (made_from rt_example) created (filter has_title items_example)
       \<and> length created = 2
       \<and> map id' created = [3, 4]"
    using c(1,2) len ids by (intro exI [of _ created] conjI)
  with titled wf_store_ab creatable_example show ?thesis by (intro conjI)
qed

lemma truthy_iff:
  "truthy v \<longleftrightarrow>
     v \<notin> {JNull, JBool False, JInt 0, JFloat (Finite 0), JStr [], JList [], JObj []}"
  by (cases v) auto

lemma py_int_value:
  "py_int rt pv = Inr p \<longleftrightarrow>
     (case pv of
        JInt n \<Rightarrow> p = n
      | JBool b \<Rightarrow> p = (if b then 1 else 0)
      | JFloat x \<Rightarrow> (case x of Finite r \<Rightarrow> p = (if r < 0 then \<lceil>r\<rceil> else \<lfloor>r\<rfloor>) | _ \<Rightarrow> False)
      | JStr str \<Rightarrow> int_of_str rt str = Some p
      | _ \<Rightarrow> False)"
  by (cases "(rt, pv)" rule: py_int.cases)
     (auto simp: trunc_def ceiling_def split: option.splits)

lemma create_todo_titled:
  assumes "wf_store s" and "map_of kvs ''title'' = Some ttl" and "truthy ttl"
  shows "create_todo rt s (JObj kvs) =
           (case py_int rt (item_get (JObj kvs) ''priority'' (JInt 1)) of
              Inr p \<Rightarrow>
                (let t = \<lparr>id' = NEXT_ID s, title = ttl,
                           is_done = truthy (item_get (JObj kvs) ''is_done'' (JBool False)),
                           priority = p, position = NEXT_ID s\<rparr>
                 in (s\<lparr>NEXT_ID := NEXT_ID s + 1, TODOS := TODOS s @ [(NEXT_ID s, t)]\<rparr>,
                     Inr (Todo t)))
            | Inl e \<Rightarrow> (s\<lparr>NEXT_ID := NEXT_ID s + 1\<rparr>, Inl (Uncaught e)))"
proof -
  from assms(2) have "kvs \<noteq> []" by auto
  then have data: "get_json_or_empty (JObj kvs) = JObj kvs"
    by (simp add: get_json_or_empty_def)
  from assms(1) have "NEXT_ID s \<notin> fst ` set (TODOS s)" by (auto simp: wf_store_alt)
  then have upd: "AList.update (NEXT_ID s) t (TODOS s) = TODOS s @ [(NEXT_ID s, t)]" for t
    by (rule update_fresh)
  from assms(2,3) data show ?thesis
    by (simp add: create_todo_def make_todo_eq item_get_def upd Let_def split: sum.split)
qed

lemma made_from_create:
  assumes "made_from rt t item" and "has_title item" and "position t = id' t"
  shows "snd (create_todo rt (s\<lparr>NEXT_ID := id' t\<rparr>) item) = Inr (Todo t)"
proof -
  from assms(2) obtain kvs where item: "item = JObj kvs"
    by (cases item) (simp_all add: has_title_def item_get_def)
  from assms(2) item obtain ttl where ttl: "map_of kvs ''title'' = Some ttl" "truthy ttl"
    by (cases "map_of kvs ''title''") (simp_all add: has_title_def item_get_def)
  from ttl(1) have "kvs \<noteq> []" by auto
  then have data: "get_json_or_empty (JObj kvs) = JObj kvs"
    by (simp add: get_json_or_empty_def)
  from assms(1) item ttl have fields:
    "title t = ttl"
    "is_done t = truthy (case map_of kvs ''is_done'' of None \<Rightarrow> JBool False | Some v \<Rightarrow> v)"
    "py_int rt (case map_of kvs ''priority'' of None \<Rightarrow> JInt 1 | Some v \<Rightarrow> v) = Inr (priority t)"
    by (simp_all add: made_from_def item_get_def)
  have "\<lparr>id' = id' t, title = ttl,
         is_done = truthy (case map_of kvs ''is_done'' of None \<Rightarrow> JBool False | Some v \<Rightarrow> v),
         priority = priority t, position = id' t\<rparr> = t"
    by (rule todo.equality) (simp_all add: fields assms(3))
  with ttl data fields(3) show ?thesis
    unfolding item by (simp add: create_todo_def make_todo_eq)
qed

text \<open>
  Claim C10. On a well-formed store, \<^verbatim>\<open>create_todo\<close> with a truthy title stores and
  returns a todo whose is_done is false exactly when the supplied is_done (false when
  none is supplied) is null, false, the number 0 or 0.0, the empty string, the empty list
  or the empty object, and true for every other value: for the string \<^verbatim>\<open>"false"\<close>,
  for example. Its priority is the supplied priority (1 when none is supplied) as an
  integer: the integer itself, 1 or 0 for true or false, a finite float cut towards zero,
  a string as the interpreter reads it; for every other value \<^verbatim>\<open>int()\<close> raises, the
  request ends with that exception and no todo is stored. For \<^verbatim>\<open>create_todos_bulk\<close>
  with a list of items, the todos it adds to the store, also when the batch ends in an
  exception, come from the titled items in order; each is the todo that
  \<^verbatim>\<open>create_todo\<close> answers for that item when it gives the same id, with the is_done
  and the priority of the item coerced in the same way; they are the todos of the
  answer when there is one. That a stored
  is_done is a boolean and a stored priority an integer is the type of the record
  \<open>todo\<close>.
\<close>

theorem creation_coerces_fields:
  assumes "wf_store s"
  shows "(\<forall>ttl. map_of kvs ''title'' = Some ttl \<longrightarrow> truthy ttl \<longrightarrow>
            create_todo rt s (JObj kvs) =
              (let d = (case map_of kvs ''is_done'' of None \<Rightarrow> JBool False | Some v \<Rightarrow> v);
                   pv = (case map_of kvs ''priority'' of None \<Rightarrow> JInt 1 | Some v \<Rightarrow> v);
                   made = (\<lambda>p. \<lparr>id' = NEXT_ID s, title = ttl,
                                 is_done = (d \<notin> {JNull, JBool False, JInt 0, JFloat (Finite 0),
                                                  JStr [], JList [], JObj []}),
                                 priority = p, position = NEXT_ID s\<rparr>);
                   stored = (\<lambda>p. (s\<lparr>NEXT_ID := NEXT_ID s + 1,
                                     TODOS := TODOS s @ [(NEXT_ID s, made p)]\<rparr>,
                                   Inr (Todo (made p))));
                   raised = (\<lambda>e. (s\<lparr>NEXT_ID := NEXT_ID s + 1\<rparr>, Inl (Uncaught e)))
               in case pv of
                    JInt n \<Rightarrow> stored n
                  | JBool b \<Rightarrow> stored (if b then 1 else 0)
                  | JFloat x \<Rightarrow>
                      (case x of
                         Finite r \<Rightarrow> stored (if r < 0 then \<lceil>r\<rceil> else \<lfloor>r\<rfloor>)
                       | NaN \<Rightarrow> raised ValueError
                       | PosInf \<Rightarrow> raised OverflowError
                       | NegInf \<Rightarrow> raised OverflowError)
                  | JStr str \<Rightarrow>
                      (case int_of_str rt str of Some n \<Rightarrow> stored n | None \<Rightarrow> raised ValueError)
                  | JNull \<Rightarrow> raised TypeError
                  | JList xs \<Rightarrow> raised TypeError
                  | JObj kvs' \<Rightarrow> raised TypeError))
       \<and> (\<forall>items. py_get (get_json_or_empty body) ''items'' JNull = Inr (JList items) \<longrightarrow>
            (\<exists>new. TODOS (fst (create_todos_bulk rt s body)) = TODOS s @ map (\<lambda>t. (id' t, t)) new
                 \<and> list_all2
                      (\<lambda>t item.
                         snd (create_todo rt (s\<lparr>NEXT_ID := id' t\<rparr>) item) = Inr (Todo t)
                       \<and> is_done t =
                           (item_get item ''is_done'' (JBool False)
                              \<notin> {JNull, JBool False, JInt 0, JFloat (Finite 0),
                                  JStr [], JList [], JObj []})
                       \<and> (case item_get item ''priority'' (JInt 1) of
                             JInt n \<Rightarrow> priority t = n
                           | JBool b \<Rightarrow> priority t = (if b then 1 else 0)
                           | JFloat x \<Rightarrow>
                               (case x of
                                  Finite r \<Rightarrow> priority t = (if r < 0 then \<lceil>r\<rceil> else \<lfloor>r\<rfloor>)
                                | _ \<Rightarrow> False)
                           | JStr str \<Rightarrow> int_of_str rt str = Some (priority t)
                           | _ \<Rightarrow> False))
                      new (take (length new) (filter has_title items))
                 \<and> (\<forall>cs n. snd (create_todos_bulk rt s body) = Inr (Created cs n) \<longrightarrow>
                        cs = new \<and> length new = length (filter has_title items))))"
proof -
  have create: "create_todo rt s (JObj kvs) =
              (let d = (case map_of kvs ''is_done'' of None \<Rightarrow> JBool False | Some v \<Rightarrow> v);
                   pv = (case map_of kvs ''priority'' of None \<Rightarrow> JInt 1 | Some v \<Rightarrow> v);
                   made = (\<lambda>p. \<lparr>id' = NEXT_ID s, title = ttl,
                                 is_done = (d \<notin> {JNull, JBool False, JInt 0, JFloat (Finite 0),
                                                  JStr [], JList [], JObj []}),
                                 priority = p, position = NEXT_ID s\<rparr>);
                   stored = (\<lambda>p. (s\<lparr>NEXT_ID := NEXT_ID s + 1,
                                     TODOS := TODOS s @ [(NEXT_ID s, made p)]\<rparr>,
                                   Inr (Todo (made p))));
                   raised = (\<lambda>e. (s\<lparr>NEXT_ID := NEXT_ID s + 1\<rparr>, Inl (Uncaught e)))
               in case pv of
                    JInt n \<Rightarrow> stored n
                  | JBool b \<Rightarrow> stored (if b then 1 else 0)
                  | JFloat x \<Rightarrow>
                      (case x of
                         Finite r \<Rightarrow> stored (if r < 0 then \<lceil>r\<rceil> else \<lfloor>r\<rfloor>)
                       | NaN \<Rightarrow> raised ValueError
                       | PosInf \<Rightarrow> raised OverflowError
                       | NegInf \<Rightarrow> raised OverflowError)
                  | JStr str \<Rightarrow>
                      (case int_of_str rt str of Some n \<Rightarrow> stored n | None \<Rightarrow> raised ValueError)
                  | JNull \<Rightarrow> raised TypeError
                  | JList xs \<Rightarrow> raised TypeError
                  | JObj kvs' \<Rightarrow> raised TypeError)"
    if ttl: "map_of kvs ''title'' = Some ttl" "truthy ttl" for ttl
  proof -
    define pv where "pv = (case map_of kvs ''priority'' of None \<Rightarrow> JInt 1 | Some v \<Rightarrow> v)"
    define d where "d = (case map_of kvs ''is_done'' of None \<Rightarrow> JBool False | Some v \<Rightarrow> v)"
    have gets: "item_get (JObj kvs) ''priority'' (JInt 1) = pv"
      "item_get (JObj kvs) ''is_done'' (JBool False) = d"
      by (simp_all add: item_get_def pv_def d_def)
    note eq = create_todo_titled [OF assms ttl, of rt, unfolded gets truthy_iff [of d]]
    show ?thesis
      unfolding Let_def pv_def [symmetric] d_def [symmetric] eq
      by (simp add: trunc_def ceiling_def split: json.split pyfloat.split option.split)
  qed
  have bulk: "\<exists>new. TODOS (fst (create_todos_bulk rt s body)) = TODOS s @ map (\<lambda>t. (id' t, t)) new
                 \<and> list_all2
                      (\<lambda>t item.
                         snd (create_todo rt (s\<lparr>NEXT_ID := id' t\<rparr>) item) = Inr (Todo t)
                       \<and> is_done t =
                           (item_get item ''is_done'' (JBool False)
                              \<notin> {JNull, JBool False, JInt 0, JFloat (Finite 0),
                                  JStr [], JList [], JObj []})
                       \<and> (case item_get item ''priority'' (JInt 1) of
                             JInt n \<Rightarrow> priority t = n
                           | JBool b \<Rightarrow> priority t = (if b then 1 else 0)
                           | JFloat x \<Rightarrow>
                               (case x of
                                  Finite r \<Rightarrow> priority t = (if r < 0 then \<lceil>r\<rceil> else \<lfloor>r\<rfloor>)
                                | _ \<Rightarrow> False)
                           | JStr str \<Rightarrow> int_of_str rt str = Some (priority t)
                           | _ \<Rightarrow> False))
                      new (take (length new) (filter has_title items))
                 \<and> (\<forall>cs n. snd (create_todos_bulk rt s body) = Inr (Created cs n) \<longrightarrow>
                        cs = new \<and> length new = length (filter has_title items))"
    if items: "py_get (get_json_or_empty body) ''items'' JNull = Inr (JList items)" for items
  proof -
    obtain s' r where loop: "bulk_loop rt items s [] = (s', r)"
      by (cases "bulk_loop rt items s []")
    with items have res: "create_todos_bulk rt s body =
        (s', case r of Inl e \<Rightarrow> Inl (Uncaught e) | Inr created \<Rightarrow> Inr (Created created (length created)))"
      by (simp add: create_todos_bulk_def split: sum.split)
    from assms have fresh: "\<forall>k\<in>fst ` set (TODOS s). k < NEXT_ID s" by (simp add: wf_store_alt)
    from bulk_loop_made_from [OF fresh loop] obtain new where new:
      "TODOS s' = TODOS s @ map (\<lambda>t. (id' t, t)) new"
      "list_all2 (made_from rt) new (take (length new) (filter has_title items))"
      by blast
    from bulk_loop_shape [OF fresh loop] obtain new' where new':
      "TODOS s' = TODOS s @ map (\<lambda>t. (id' t, t)) new'"
      "\<forall>t\<in>set new'. position t = id' t"
      "case r of
         Inr cs \<Rightarrow> cs = [] @ new' \<and> NEXT_ID s' = NEXT_ID s + int (length new')
                  \<and> list_all2 (made_from rt) new' (filter has_title items)
       | Inl e \<Rightarrow> NEXT_ID s' = NEXT_ID s + int (length new') + (if int_raises e then 1 else 0)"
      by blast
    from new(1) new'(1) have "map (\<lambda>t. (id' t, t)) new = map (\<lambda>t. (id' t, t)) new'" by simp
    then have "map snd (map (\<lambda>t. (id' t, t)) new) = map snd (map (\<lambda>t. (id' t, t)) new')"
      by simp
    then have same: "new' = new" by (simp add: comp_def)
    have cnt: "cs = new \<and> length new = length (filter has_title items)"
      if "snd (create_todos_bulk rt s body) = Inr (Created cs n)" for cs n
    proof (cases r)
      case (Inl e)
      with that res show ?thesis by simp
    next
      case (Inr cs')
      with new'(3) same have "cs' = new" "list_all2 (made_from rt) new (filter has_title items)"
        by simp_all
      with that res Inr show ?thesis by (auto dest: list_all2_lengthD)
    qed
    have as_create: "list_all2
                      (\<lambda>t item.
                         snd (create_todo rt (s\<lparr>NEXT_ID := id' t\<rparr>) item) = Inr (Todo t)
                       \<and> is_done t =
                           (item_get item ''is_done'' (JBool False)
                              \<notin> {JNull, JBool False, JInt 0, JFloat (Finite 0),
                                  JStr [], JList [], JObj []})
                       \<and> (case item_get item ''priority'' (JInt 1) of
                             JInt n \<Rightarrow> priority t = n
                           | JBool b \<Rightarrow> priority t = (if b then 1 else 0)
                           | JFloat x \<Rightarrow>
                               (case x of
                                  Finite r \<Rightarrow> priority t = (if r < 0 then \<lceil>r\<rceil> else \<lfloor>r\<rfloor>)
                                | _ \<Rightarrow> False)
                           | JStr str \<Rightarrow> int_of_str rt str = Some (priority t)
                           | _ \<Rightarrow> False))
                      new (take (length new) (filter has_title items))"
      using new(2)
    proof (rule list.rel_mono_strong)
      fix t item
      assume t: "t \<in> set new"
        and item: "item \<in> set (take (length new) (filter has_title items))"
        and mf: "made_from rt t item"
      from item have "item \<in> set (filter has_title items)" by (rule in_set_takeD)
      then have ht: "has_title item" by simp
      from t new'(2) same have "position t = id' t" by simp
      note made_from_create [OF mf ht this, of s]
      moreover from mf have "is_done t =
                           (item_get item ''is_done'' (JBool False)
                              \<notin> {JNull, JBool False, JInt 0, JFloat (Finite 0),
                                  JStr [], JList [], JObj []})"
        unfolding made_from_def truthy_iff by simp
      moreover from mf have "py_int rt (item_get item ''priority'' (JInt 1)) = Inr (priority t)"
        by (simp add: made_from_def)
      then have "case item_get item ''priority'' (JInt 1) of
                   JInt n \<Rightarrow> priority t = n
                 | JBool b \<Rightarrow> priority t = (if b then 1 else 0)
                 | JFloat x \<Rightarrow>
                     (case x of
                        Finite r \<Rightarrow> priority t = (if r < 0 then \<lceil>r\<rceil> else \<lfloor>r\<rfloor>)
                      | _ \<Rightarrow> False)
                 | JStr str \<Rightarrow> int_of_str rt str = Some (priority t)
                 | _ \<Rightarrow> False"
        by (simp only: py_int_value)
      ultimately
      show "snd (create_todo rt (s\<lparr>NEXT_ID := id' t\<rparr>) item) = Inr (Todo t)
          \<and> is_done t =
              (item_get item ''is_done'' (JBool False)
                 \<notin> {JNull, JBool False, JInt 0, JFloat (Finite 0), JStr [], JList [], JObj []})
          \<and> (case item_get item ''priority'' (JInt 1) of
                JInt n \<Rightarrow> priority t = n
              | JBool b \<Rightarrow> priority t = (if b then 1 else 0)
              | JFloat x \<Rightarrow>
                  (case x of
                     Finite r \<Rightarrow> priority t = (if r < 0 then \<lceil>r\<rceil> else \<lfloor>r\<rfloor>)
                   | _ \<Rightarrow> False)
              | JStr str \<Rightarrow> int_of_str rt str = Some (priority t)
              | _ \<Rightarrow> False)"
        by (intro conjI)
    qed
    have f: "fst (create_todos_bulk rt s body) = s'" using res by simp
    show ?thesis
    proof (intro exI [of _ new] conjI)
      show "TODOS (fst (create_todos_bulk rt s body)) = TODOS s @ map (\<lambda>t. (id' t, t)) new"
        unfolding f by (rule new(1))
      show "list_all2
              (\<lambda>t item.
                 snd (create_todo rt (s\<lparr>NEXT_ID := id' t\<rparr>) item) = Inr (Todo t)
               \<and> is_done t =
                   (item_get item ''is_done'' (JBool False)
                      \<notin> {JNull, JBool False, JInt 0, JFloat (Finite 0),
                          JStr [], JList [], JObj []})
               \<and> (case item_get item ''priority'' (JInt 1) of
                     JInt n \<Rightarrow> priority t = n
                   | JBool b \<Rightarrow> priority t = (if b then 1 else 0)
                   | JFloat x \<Rightarrow>
                       (case x of
                          Finite r \<Rightarrow> priority t = (if r < 0 then \<lceil>r\<rceil> else \<lfloor>r\<rfloor>)
                        | _ \<Rightarrow> False)
                   | JStr str \<Rightarrow> int_of_str rt str = Some (priority t)
                   | _ \<Rightarrow> False))
              new (take (length new) (filter has_title items))"
        by (rule as_create)
      show "\<forall>cs n. snd (create_todos_bulk rt s body) = Inr (Created cs n) \<longrightarrow>
                   cs = new \<and> length new = length (filter has_title items)"
        using cnt by blast
    qed
  qed
  from create bulk show ?thesis by blast
qed

theorem creation_coerces_fields_witness:
  "wf_store store_ab
   \<and> create_todo rt_example store_ab
         (JObj [(''title'', JStr ''C''), (''is_done'', JStr ''false''), (''priority'', JStr ''7'')])
       = (\<lparr>TODOS = [(1, \<lparr>id' = 1, title = JStr ''A'', is_done = False, priority = 1, position = 1\<rparr>),
                   (2, \<lparr>id' = 2, title = JStr ''B'', is_done = False, priority = 1, position = 2\<rparr>),
                   (3, \<lparr>id' = 3, title = JStr ''C'', is_done = True, priority = 7, position = 3\<rparr>)],
           NEXT_ID = 4\<rparr>,
          Inr (Todo \<lparr>id' = 3, title = JStr ''C'', is_done = True, priority = 7, position = 3\<rparr>))
   \<and> snd (create_todo rt_example store_ab
         (JObj [(''title'', JStr ''D''), (''is_done'', JInt 1), (''priority'', JInt 5)]))
       = Inr (Todo \<lparr>id' = 3, title = JStr ''D'', is_done = True, priority = 5, position = 3\<rparr>)
   \<and> snd (create_todo rt_example store_ab
         (JObj [(''title'', JStr ''E''), (''is_done'', JList [JInt 0]),
                (''priority'', JFloat (Finite (- 29 / 10)))]))
       = Inr (Todo \<lparr>id' = 3, title = JStr ''E'', is_done = True, priority = - 2, position = 3\<rparr>)
   \<and> snd (create_todo rt_example store_ab
         (JObj [(''title'', JStr ''F''), (''is_done'', JInt 0), (''priority'', JBool True)]))
       = Inr (Todo \<lparr>id' = 3, title = JStr ''F'', is_done = False, priority = 1, position = 3\<rparr>)
   \<and> create_todo rt_example store_ab (JObj [(''title'', JStr ''G''), (''priority'', JNull)])
       = (store_ab\<lparr>NEXT_ID := 4\<rparr>, Inl (Uncaught TypeError))
   \<and> (\<exists>new. TODOS (fst (create_todos_bulk rt_example store_ab (JObj [(''items'', JList items_example)])))
               = TODOS store_ab @ map (\<lambda>t. (id' t, t)) new
            \<and> list_all2
                 (\<lambda>t item.
                    snd (create_todo rt_example (store_ab\<lparr>NEXT_ID := id' t\<rparr>) item) = Inr (Todo t)
                  \<and> is_done t =
                      (item_get item ''is_done'' (JBool False)
                         \<notin> {JNull, JBool False, JInt 0, JFloat (Finite 0),
                             JStr [], JList [], JObj []})
                  \<and> (case item_get item ''priority'' (JInt 1) of
                        JInt n \<Rightarrow> priority t = n
                      | JBool b \<Rightarrow> priority t = (if b then 1 else 0)
                      | JFloat x \<Rightarrow>
                          (case x of
                             Finite r \<Rightarrow> priority t = (if r < 0 then \<lceil>r\<rceil> else \<lfloor>r\<rfloor>)
                           | _ \<Rightarrow> False)
                      | JStr str \<Rightarrow> int_of_str rt_example str = Some (priority t)
                      | _ \<Rightarrow> False))
                 new (take (length new) (filter has_title items_example))
            \<and> new = [\<lparr>id' = 3, title = JStr ''C'', is_done = True, priority = 1, position = 3\<rparr>,
                       \<lparr>id' = 4, title = JStr ''D'', is_done = False, priority = 7, position = 4\<rparr>])"
proof -
  note inst = creation_coerces_fields [OF wf_store_ab, where rt = rt_example
      and body = "JObj [(''items'', JList items_example)]"]
  from inst [of "[(''title'', JStr ''C''), (''is_done'', JStr ''false''), (''priority'', JStr ''7'')]",
             THEN conjunct1, rule_format, of "JStr ''C''"]
  have c: "create_todo rt_example store_ab
         (JObj [(''title'', JStr ''C''), (''is_done'', JStr ''false''), (''priority'', JStr ''7'')])
       = (\<lparr>TODOS = [(1, \<lparr>id' = 1, title = JStr ''A'', is_done = False, priority = 1, position = 1\<rparr>),
                   (2, \<lparr>id' = 2, title = JStr ''B'', is_done = False, priority = 1, position = 2\<rparr>),
                   (3, \<lparr>id' = 3, title = JStr ''C'', is_done = True, priority = 7, position = 3\<rparr>)],
           NEXT_ID = 4\<rparr>,
          Inr (Todo \<lparr>id' = 3, title = JStr ''C'', is_done = True, priority = 7, position = 3\<rparr>))"
    by (simp add: rt_example_def store_ab_def Let_def)
  from inst [of "[(''title'', JStr ''D''), (''is_done'', JInt 1), (''priority'', JInt 5)]",
             THEN conjunct1, rule_format, of "JStr ''D''"]
  have d: "snd (create_todo rt_example store_ab
         (JObj [(''title'', JStr ''D''), (''is_done'', JInt 1), (''priority'', JInt 5)]))
       = Inr (Todo \<lparr>id' = 3, title = JStr ''D'', is_done = True, priority = 5, position = 3\<rparr>)"
    by (simp add: store_ab_def Let_def)
  from inst [of "[(''title'', JStr ''E''), (''is_done'', JList [JInt 0]),
                  (''priority'', JFloat (Finite (- 29 / 10)))]",
             THEN conjunct1, rule_format, of "JStr ''E''"]
  have e: "snd (create_todo rt_example store_ab
         (JObj [(''title'', JStr ''E''), (''is_done'', JList [JInt 0]),
                (''priority'', JFloat (Finite (- 29 / 10)))]))
       = Inr (Todo \<lparr>id' = 3, title = JStr ''E'', is_done = True, priority = - 2, position = 3\<rparr>)"
    by (simp add: store_ab_def Let_def ceiling_eq_iff)
  from inst [of "[(''title'', JStr ''F''), (''is_done'', JInt 0), (''priority'', JBool True)]",
             THEN conjunct1, rule_format, of "JStr ''F''"]
  have f: "snd (create_todo rt_example store_ab
         (JObj [(''title'', JStr ''F''), (''is_done'', JInt 0), (''priority'', JBool True)]))
       = Inr (Todo \<lparr>id' = 3, title = JStr ''F'', is_done = False, priority = 1, position = 3\<rparr>)"
    by (simp add: store_ab_def Let_def)
  from inst [of "[(''title'', JStr ''G''), (''priority'', JNull)]",
             THEN conjunct1, rule_format, of "JStr ''G''"]
  have g: "create_todo rt_example store_ab (JObj [(''title'', JStr ''G''), (''priority'', JNull)])
       = (store_ab\<lparr>NEXT_ID := 4\<rparr>, Inl (Uncaught TypeError))"
    by (simp add: store_ab_def Let_def)
  from inst [of "[]", THEN conjunct2, rule_format, of items_example]
  obtain new where new:
    "TODOS (fst (create_todos_bulk rt_example store_ab (JObj [(''items'', JList items_example)])))
       = TODOS store_ab @ map (\<lambda>t. (id' t, t)) new"
    "list_all2
       (\<lambda>t item.
          snd (create_todo rt_example (store_ab\<lparr>NEXT_ID := id' t\<rparr>) item) = Inr (Todo t)
        \<and> is_done t =
            (item_get item ''is_done'' (JBool False)
               \<notin> {JNull, JBool False, JInt 0, JFloat (Finite 0),
                   JStr [], JList [], JObj []})
        \<and> (case item_get item ''priority'' (JInt 1) of
              JInt n \<Rightarrow> priority t = n
            | JBool b \<Rightarrow> priority t = (if b then 1 else 0)
            | JFloat x \<Rightarrow>
                (case x of
                   Finite r \<Rightarrow> priority t = (if r < 0 then \<lceil>r\<rceil> else \<lfloor>r\<rfloor>)
                 | _ \<Rightarrow> False)
            | JStr str \<Rightarrow> int_of_str rt_example str = Some (priority t)
            | _ \<Rightarrow> False))
       new (take (length new) (filter has_title items_example))"
    "\<forall>cs n. snd (create_todos_bulk rt_example store_ab (JObj [(''items'', JList items_example)]))
              = Inr (Created cs n) \<longrightarrow>
            cs = new \<and> length new = length (filter has_title items_example)"
    by (auto simp: get_json_or_empty_def)
  from new(3) have "new = [\<lparr>id' = 3, title = JStr ''C'', is_done = True, priority = 1, position = 3\<rparr>,
                       \<lparr>id' = 4, title = JStr ''D'', is_done = False, priority = 7, position = 4\<rparr>]"
    unfolding bulk_example by simp
  with new(1,2) have "\<exists>new. TODOS (fst (create_todos_bulk rt_example store_ab (JObj [(''items'', JList items_example)])))
               = TODOS store_ab @ map (\<lambda>t. (id' t, t)) new
            \<and> list_all2
                 (\<lambda>t item.
                    snd (create_todo rt_example (store_ab\<lparr>NEXT_ID := id' t\<rparr>) item) = Inr (Todo t)
                  \<and> is_done t =
                      (item_get item ''is_done'' (JBool False)
                         \<notin> {JNull, JBool False, JInt 0, JFloat (Finite 0),
                             JStr [], JList [], JObj []})
                  \<and> (case item_get item ''priority'' (JInt 1) of
                        JInt n \<Rightarrow> priority t = n
                      | JBool b \<Rightarrow> priority t = (if b then 1 else 0)
                      | JFloat x \<Rightarrow>
                          (case x of
                             Finite r \<Rightarrow> priority t = (if r < 0 then \<lceil>r\<rceil> else \<lfloor>r\<rfloor>)
                           | _ \<Rightarrow> False)
                      | JStr str \<Rightarrow> int_of_str rt_example str = Some (priority t)
                      | _ \<Rightarrow> False))
                 new (take (length new) (filter has_title items_example))
            \<and> new = [\<lparr>id' = 3, title = JStr ''C'', is_done = True, priority = 1, position = 3\<rparr>,
                       \<lparr>id' = 4, title = JStr ''D'', is_done = False, priority = 7, position = 4\<rparr>]"
    by (intro exI [of _ new] conjI)
  with c d e f g show ?thesis using wf_store_ab by (intro conjI)
qed

end
